theory Spec2Isabelle
  imports Main "HOL-Library.Word" "HOL-Library.Sublist"
begin

section \<open>JavaScript strings\<close>

text \<open>
  A JavaScript string is a sequence of UTF-16 code units; \<^verbatim>\<open>length\<close>,
  \<^verbatim>\<open>slice\<close>, \<^verbatim>\<open>trim\<close> and the regular expressions of
  \<^verbatim>\<open>src/extension.ts\<close> (none has the \<^verbatim>\<open>u\<close> flag) all work on code units.
  \<open>js\<close> turns an ASCII literal into such a string.
\<close>

type_synonym code_unit = "16 word"
type_synonym jsstring = "code_unit list"

definition js :: "string \<Rightarrow> jsstring" where
  "js s = map of_char s"

definition NL :: code_unit where
  "NL = 0x0A"

text \<open>
  ECMAScript \<^verbatim>\<open>LineTerminator\<close>: LF, CR, LS, PS. These are the characters that
  \<^verbatim>\<open>.\<close> refuses and next to which \<^verbatim>\<open>^\<close> and \<^verbatim>\<open>$\<close> match under the
  \<^verbatim>\<open>m\<close> flag.
\<close>

definition isLineTerminator :: "code_unit \<Rightarrow> bool" where
  "isLineTerminator c = (c = 0x0A \<or> c = 0x0D \<or> c = 0x2028 \<or> c = 0x2029)"

text \<open>
  What \<^verbatim>\<open>String.prototype.trim\<close> strips: \<^verbatim>\<open>WhiteSpace\<close> (TAB, VT, FF, ZWNBSP
  and the Unicode space separators) and \<^verbatim>\<open>LineTerminator\<close>.
\<close>

definition isWhiteSpace :: "code_unit \<Rightarrow> bool" where
  "isWhiteSpace c =
     (c = 0x09 \<or> c = 0x0B \<or> c = 0x0C \<or> c = 0x20 \<or> c = 0xA0 \<or> c = 0x1680
      \<or> (0x2000 \<le> c \<and> c \<le> 0x200A) \<or> c = 0x202F \<or> c = 0x205F \<or> c = 0x3000
      \<or> c = 0xFEFF \<or> isLineTerminator c)"

definition trimStart :: "jsstring \<Rightarrow> jsstring" where
  "trimStart s = dropWhile isWhiteSpace s"

definition trimEnd :: "jsstring \<Rightarrow> jsstring" where
  "trimEnd s = rev (dropWhile isWhiteSpace (rev s))"

definition trim :: "jsstring \<Rightarrow> jsstring" where
  "trim s = trimEnd (trimStart s)"

text \<open>The character classes \<^verbatim>\<open>\d\<close>, \<^verbatim>\<open>[a-f0-9]\<close> and, under the \<^verbatim>\<open>i\<close> flag,
  \<^verbatim>\<open>[a-z]\<close> (which then accepts exactly the ASCII letters of both cases).\<close>

definition isDigit :: "code_unit \<Rightarrow> bool" where
  "isDigit c = (0x30 \<le> c \<and> c \<le> 0x39)"

definition isHexLower :: "code_unit \<Rightarrow> bool" where
  "isHexLower c = ((0x61 \<le> c \<and> c \<le> 0x66) \<or> isDigit c)"

definition isLetter :: "code_unit \<Rightarrow> bool" where
  "isLetter c = ((0x61 \<le> c \<and> c \<le> 0x7A) \<or> (0x41 \<le> c \<and> c \<le> 0x5A))"

section \<open>Diff preprocessing\<close>

definition MAX_DIFF_CHARS :: nat where
  "MAX_DIFF_CHARS = 12000"

subsection \<open>Collapsing blank lines\<close>

text \<open>
  \<^verbatim>\<open>diff.replace(/\n{3,}/g, '\n\n')\<close>: the scan goes left to right; where three or
  more newlines start, the greedy quantifier takes the whole run, two newlines are
  written and the scan goes on after the run; any other character is copied.
\<close>

function collapseBlankLines :: "jsstring \<Rightarrow> jsstring" where
  "collapseBlankLines [] = []"
| "collapseBlankLines (c # cs) =
     (if c = NL \<and> 2 \<le> length (takeWhile (\<lambda>x. x = NL) cs)
      then NL # NL # collapseBlankLines (dropWhile (\<lambda>x. x = NL) cs)
      else c # collapseBlankLines cs)"
  by pat_completeness auto
termination
  by (relation "measure length") (auto simp: length_dropWhile_le less_Suc_eq_le)

subsection \<open>Removing noise lines\<close>

definition stripPrefix :: "jsstring \<Rightarrow> jsstring \<Rightarrow> jsstring option" where
  "stripPrefix p s = (if prefix p s then Some (drop (length p) s) else None)"

text \<open>
  Each of the five \<^verbatim>\<open>NOISE_PATTERNS\<close> has the flags \<^verbatim>\<open>gm\<close>, starts with
  \<^verbatim>\<open>^\<close>, ends with \<^verbatim>\<open>$\<close> and in between consumes only characters that are not
  line terminators (literal text, \<^verbatim>\<open>\d\<close>, \<^verbatim>\<open>[a-f0-9]\<close> and \<^verbatim>\<open>.\<close>). A match
  therefore starts where a line starts, ends where that line ends, and is the whole
  line (the characters between two line terminators, the terminators excluded). A
  pattern is embedded as the predicate that says which lines it matches. No pattern
  matches the empty line.
\<close>

text \<open>\<^verbatim>\<open>/^index [a-f0-9]+\.\.[a-f0-9]+.*$/gm\<close>: the first class takes the longest run
  of hex digits (a shorter one would be followed by a hex digit, not by a dot), and
  \<^verbatim>\<open>.*\<close> takes the rest of the line.\<close>

definition indexLine :: "jsstring \<Rightarrow> bool" where
  "indexLine l =
     (case stripPrefix (js ''index '') l of
        None \<Rightarrow> False
      | Some r \<Rightarrow>
          takeWhile isHexLower r \<noteq> [] \<and>
          (case stripPrefix (js ''..'') (dropWhile isHexLower r) of
             None \<Rightarrow> False
           | Some r' \<Rightarrow> takeWhile isHexLower r' \<noteq> []))"

text \<open>\<^verbatim>\<open>/^similarity index \d+%$/gm\<close>\<close>

definition similarityLine :: "jsstring \<Rightarrow> bool" where
  "similarityLine l =
     (case stripPrefix (js ''similarity index '') l of
        None \<Rightarrow> False
      | Some r \<Rightarrow> takeWhile isDigit r \<noteq> [] \<and> dropWhile isDigit r = js ''%'')"

text \<open>\<^verbatim>\<open>/^old mode \d+$/gm\<close>\<close>

definition oldModeLine :: "jsstring \<Rightarrow> bool" where
  "oldModeLine l =
     (case stripPrefix (js ''old mode '') l of
        None \<Rightarrow> False
      | Some r \<Rightarrow> r \<noteq> [] \<and> list_all isDigit r)"

text \<open>\<^verbatim>\<open>/^new mode \d+$/gm\<close>\<close>

definition newModeLine :: "jsstring \<Rightarrow> bool" where
  "newModeLine l =
     (case stripPrefix (js ''new mode '') l of
        None \<Rightarrow> False
      | Some r \<Rightarrow> r \<noteq> [] \<and> list_all isDigit r)"

text \<open>\<^verbatim>\<open>/^Binary files .+ differ$/gm\<close>: the line starts with the 13 characters
  \<^verbatim>\<open>Binary files \<close>, ends with the 7 characters \<^verbatim>\<open> differ\<close>, and \<^verbatim>\<open>.+\<close> has
  at least one character between them.\<close>

definition binaryLine :: "jsstring \<Rightarrow> bool" where
  "binaryLine l =
     (prefix (js ''Binary files '') l \<and> suffix (js '' differ'') l \<and>
      length (js ''Binary files '') + 1 + length (js '' differ'') \<le> length l)"

definition NOISE_PATTERNS :: "(jsstring \<Rightarrow> bool) list" where
  "NOISE_PATTERNS = [indexLine, similarityLine, oldModeLine, newModeLine, binaryLine]"

text \<open>
  \<^verbatim>\<open>diff.replace(pattern, '')\<close> for such a pattern: the scan goes through the string
  line by line; the characters of a line the pattern matches are deleted, every other
  line is copied; the line terminator after the line is not part of the match and is
  always copied.
\<close>

function replaceLines :: "(jsstring \<Rightarrow> bool) \<Rightarrow> jsstring \<Rightarrow> jsstring" where
  "replaceLines pattern s =
     (let l = takeWhile (\<lambda>c. \<not> isLineTerminator c) s
      in (if pattern l then [] else l) @
         (case dropWhile (\<lambda>c. \<not> isLineTerminator c) s of
            [] \<Rightarrow> []
          | t # r \<Rightarrow> t # replaceLines pattern r))"
  by pat_completeness auto
termination
proof (relation "measure (\<lambda>(p, s). length s)")
  show "wf (measure (\<lambda>(p, s). length s))" by simp
next
  fix pattern :: "jsstring \<Rightarrow> bool" and s l :: jsstring and t r
  assume "dropWhile (\<lambda>c. \<not> isLineTerminator c) s = t # r"
  then have "Suc (length r) \<le> length s"
    using length_dropWhile_le [of "\<lambda>c. \<not> isLineTerminator c" s] by simp
  then show "((pattern, r), (pattern, s)) \<in> measure (\<lambda>(p, s). length s)" by simp
qed

text \<open>The loop \<^verbatim>\<open>for (const pattern of NOISE_PATTERNS) diff = diff.replace(pattern, '')\<close>.\<close>

definition removeNoise :: "jsstring \<Rightarrow> jsstring" where
  "removeNoise rawDiff = foldl (\<lambda>diff pattern. replaceLines pattern diff) rawDiff NOISE_PATTERNS"

subsection \<open>The noise filter\<close>

definition TRUNCATION_MARKER :: jsstring where
  "TRUNCATION_MARKER = js ''[... diff truncated for length ...]''"

definition preprocessDiff :: "jsstring \<Rightarrow> jsstring" where
  "preprocessDiff rawDiff =
     (let diff = removeNoise rawDiff;
          diff = collapseBlankLines diff;
          diff = (if length diff > MAX_DIFF_CHARS
                  then take MAX_DIFF_CHARS diff @ NL # NL # TRUNCATION_MARKER
                  else diff)
      in trim diff)"

text \<open>The lines of a text: the pieces between line terminators. Used to say that a text
  contains a line.\<close>

fun jsLines :: "jsstring \<Rightarrow> jsstring list" where
  "jsLines [] = [[]]"
| "jsLines (c # s) =
     (if isLineTerminator c then [] # jsLines s
      else (case jsLines s of [] \<Rightarrow> [[c]] | l # ls \<Rightarrow> (c # l) # ls))"

definition matchesNoise :: "jsstring \<Rightarrow> bool" where
  "matchesNoise l = list_ex (\<lambda>pattern. pattern l) NOISE_PATTERNS"

text \<open>A line that matches a noise pattern, and a line that matches none and is not blank.\<close>

definition noiseLine :: "jsstring \<Rightarrow> bool" where
  "noiseLine l = (list_all (\<lambda>c. \<not> isLineTerminator c) l \<and> matchesNoise l)"

definition solidLine :: "jsstring \<Rightarrow> bool" where
  "solidLine l = (list_all (\<lambda>c. \<not> isLineTerminator c) l \<and> \<not> matchesNoise l \<and>
     list_ex (\<lambda>c. \<not> isWhiteSpace c) l)"

section \<open>Prompt construction\<close>

text \<open>The template literal of \<^verbatim>\<open>buildPrompt\<close>, cut at its three interpolations.\<close>

definition PROMPT_HEAD :: jsstring where
  \<open>PROMPT_HEAD =
     js (''\<newline>'' @
        ''You are an expert software engineer writing Git commit messages.\<newline>'' @
        ''\<newline>'' @
        ''## Context\<newline>'' @
        ''Branch: '')\<close>

definition PROMPT_FILES :: jsstring where
  \<open>PROMPT_FILES =
     js (''\<newline>'' @
        ''Staged files:\<newline>'')\<close>

definition PROMPT_RULES :: jsstring where
  \<open>PROMPT_RULES =
     js (''\<newline>'' @
        ''\<newline>'' @
        ''## Rules\<newline>'' @
        ''- Use Conventional Commits format: <type>(<scope>): <short summary>\<newline>'' @
        ''- Allowed types: feat, fix, refactor, chore, docs, style, test, perf, ci\<newline>'' @
        ''- Scope is optional but use it when the change is clearly scoped to one area\<newline>'' @
        ''- Summary line: max 72 characters, imperative mood ("add" not "added"), no period\<newline>'' @
        ''- Body (optional): explain WHAT changed and WHY, not HOW. Use bullet points.\<newline>'' @
        ''- Do NOT include a footer unless there is a breaking change (BREAKING CHANGE: ...)\<newline>'' @
        ''- Return ONLY the commit message. No explanations, no markdown fences, no quotes.\<newline>'' @
        ''\<newline>'' @
        ''## Examples\<newline>'' @
        ''\<newline>'' @
        ''### Example 1\<newline>'' @
        ''Diff: adds a new /health route that returns 200 OK\<newline>'' @
        ''Output:\<newline>'' @
        ''feat(api): add health check endpoint\<newline>'' @
        ''\<newline>'' @
        ''### Example 2\<newline>'' @
        ''Diff: fixes null pointer when user.profile is undefined\<newline>'' @
        ''Output:\<newline>'' @
        ''fix(profile): handle undefined user profile on load\<newline>'' @
        ''\<newline>'' @
        ''### Example 3\<newline>'' @
        ''Diff: extracts auth logic into useAuth hook, removes duplicate code in Login and Signup\<newline>'' @
        ''Output:\<newline>'' @
        ''refactor(auth): extract auth logic into useAuth hook\<newline>'' @
        ''\<newline>'' @
        ''- Move shared auth state to useAuth\<newline>'' @
        ''- Remove duplicated logic from Login and Signup components\<newline>'' @
        ''\<newline>'' @
        ''## Now write the commit message for this diff\<newline>'' @
        ''\<newline>'')\<close>

definition PROMPT_TAIL :: jsstring where
  \<open>PROMPT_TAIL =
     js (''\<newline>'')\<close>

definition buildPrompt :: "jsstring \<Rightarrow> jsstring \<Rightarrow> jsstring \<Rightarrow> jsstring" where
  "buildPrompt diff stagedFiles branchName =
     trim (PROMPT_HEAD @ branchName @ PROMPT_FILES @ stagedFiles @ PROMPT_RULES @ diff @ PROMPT_TAIL)"

text \<open>How often, and where, a text occurs in another.\<close>

definition occurrences :: "jsstring \<Rightarrow> jsstring \<Rightarrow> nat list" where
  "occurrences p s = filter (\<lambda>i. prefix p (drop i s)) [0..<Suc (length s)]"

section \<open>Sanitizing the generated message\<close>

definition FENCE :: jsstring where
  \<open>FENCE = js ''```''\<close>

text \<open>\<^verbatim>\<open>text.replace(/^```[a-z]*\n?/i, '')\<close>: without the flag \<^verbatim>\<open>m\<close> the pattern matches
  at the start of the text only, and without \<^verbatim>\<open>g\<close> once; both quantifiers are greedy
  and nothing follows them.\<close>

definition stripLeadingFence :: "jsstring \<Rightarrow> jsstring" where
  "stripLeadingFence text =
     (case stripPrefix FENCE text of
        None \<Rightarrow> text
      | Some r \<Rightarrow>
          (case dropWhile isLetter r of
             [] \<Rightarrow> []
           | c # r' \<Rightarrow> if c = NL then r' else c # r'))"

text \<open>\<^verbatim>\<open>.replace(/```$/i, '')\<close>: without \<^verbatim>\<open>m\<close>, \<^verbatim>\<open>$\<close> is the end of the text.\<close>

definition stripTrailingFence :: "jsstring \<Rightarrow> jsstring" where
  "stripTrailingFence text =
     (if suffix FENCE text then take (length text - length FENCE) text else text)"

text \<open>The expression returned by \<^verbatim>\<open>generateCommitMessage\<close>, as a function of
  \<^verbatim>\<open>text\<close>.\<close>

definition sanitize :: "jsstring \<Rightarrow> jsstring" where
  "sanitize text = trim (stripTrailingFence (stripLeadingFence text))"

section \<open>The command\<close>

text \<open>The arguments of the callback of \<^verbatim>\<open>cp.exec\<close>: an error with \<^verbatim>\<open>stderr\<close> and its
  own message, or no error and \<^verbatim>\<open>stdout\<close>.\<close>

datatype exec_result = ExecError jsstring jsstring | ExecOk jsstring

record repository =
  rootPath :: jsstring
  inputBox :: jsstring

text \<open>The Git extension of the editor: \<open>activateError\<close> is the message of the error
  \<^verbatim>\<open>activate()\<close> rejects with, if it does; \<open>repositories\<close> is \<open>None\<close> when the API
  object has no such property.\<close>

record git_extension =
  isActive :: bool
  activateError :: "jsstring option"
  repositories :: "repository list option"

text \<open>
  What the command reads from its surroundings: the two settings (\<open>None\<close> for
  \<^verbatim>\<open>undefined\<close>), the child processes (command and working directory to the
  arguments of the callback of \<^verbatim>\<open>cp.exec\<close>, and the time at which the process ends),
  and the provider (API key, model and prompt to the generated text, or to the message
  of the error thrown).
\<close>

record host =
  cfgGeminiApiKey :: "jsstring option"
  cfgModel :: "jsstring option"
  execProcess :: "jsstring \<Rightarrow> jsstring \<Rightarrow> exec_result \<times> nat"
  generateContent :: "jsstring \<Rightarrow> jsstring \<Rightarrow> jsstring \<Rightarrow> jsstring + jsstring"

datatype event =
    ShowErrorMessage jsstring
  | ShowWarningMessage jsstring
  | ShowInformationMessage jsstring
  | ConsoleError jsstring
  | ActivateGitExtension
  | Exec jsstring jsstring
  | WithProgress jsstring
  | GenerateContent jsstring jsstring jsstring
  | SetInputBox jsstring

fun isGenerateContent :: "event \<Rightarrow> bool" where
  "isGenerateContent (GenerateContent k m p) = True"
| "isGenerateContent e = False"

fun isExec :: "event \<Rightarrow> bool" where
  "isExec (Exec c d) = True"
| "isExec e = False"

fun isSetInputBox :: "event \<Rightarrow> bool" where
  "isSetInputBox (SetInputBox m) = True"
| "isSetInputBox e = False"

fun isShowInformationMessage :: "event \<Rightarrow> bool" where
  "isShowInformationMessage (ShowInformationMessage m) = True"
| "isShowInformationMessage e = False"

definition DEFAULT_MODEL :: jsstring where
  "DEFAULT_MODEL = js ''gemini-2.0-flash''"

definition NO_API_KEY :: jsstring where
  "NO_API_KEY = js ''Git-Msg: No API key found. Add it via Settings '' @ [0x2192] @
     js '' gitMsg.geminiApiKey''"

definition GIT_EXTENSION_NOT_FOUND :: jsstring where
  "GIT_EXTENSION_NOT_FOUND = js ''Git-Msg: VS Code Git extension not found.''"

definition NO_REPOSITORY :: jsstring where
  "NO_REPOSITORY = js ''Git-Msg: No Git repository is open.''"

definition NO_STAGED_CHANGES :: jsstring where
  \<open>NO_STAGED_CHANGES = js ''Git-Msg: No staged changes found. Run "git add" first.''\<close>

definition PROGRESS_TITLE :: jsstring where
  "PROGRESS_TITLE = js ''Git-Msg: Generating commit message'' @ [0x2026]"

definition MESSAGE_READY :: jsstring where
  "MESSAGE_READY = js ''Git-Msg: Commit message ready '' @ [0x2713]"

definition GIT_DIFF :: jsstring where
  "GIT_DIFF = js ''git diff --cached''"

definition GIT_NAME_STATUS :: jsstring where
  "GIT_NAME_STATUS = js ''git diff --cached --name-status''"

definition GIT_BRANCH :: jsstring where
  "GIT_BRANCH = js ''git rev-parse --abbrev-ref HEAD''"

text \<open>\<^verbatim>\<open>value || fallback\<close> on a setting: \<^verbatim>\<open>undefined\<close> and the empty string are
  falsy.\<close>

definition falsy :: "jsstring option \<Rightarrow> bool" where
  "falsy v = (case v of None \<Rightarrow> True | Some s \<Rightarrow> s = [])"

definition orElse :: "jsstring option \<Rightarrow> jsstring \<Rightarrow> jsstring" where
  "orElse v fallback = (case v of None \<Rightarrow> fallback | Some s \<Rightarrow> if s = [] then fallback else s)"

text \<open>\<^verbatim>\<open>execCommand\<close>: the promise rejects with \<^verbatim>\<open>stderr || err.message\<close> or resolves
  with the trimmed output; the time is when it settles.\<close>

definition execCommand :: "host \<Rightarrow> jsstring \<Rightarrow> jsstring \<Rightarrow> (jsstring + jsstring) \<times> nat" where
  "execCommand h command cwd =
     (case execProcess h command cwd of
        (ExecError err msg, t) \<Rightarrow> (Inl (if err \<noteq> [] then err else msg), t)
      | (ExecOk out, t) \<Rightarrow> (Inr (trim out), t))"

text \<open>\<^verbatim>\<open>Promise.all\<close>: the values in the order of the array when every promise
  resolves, else the reason of the promise that rejects first in time.\<close>

definition promiseAll :: "((jsstring + jsstring) \<times> nat) list \<Rightarrow> jsstring + jsstring list" where
  "promiseAll ps =
     (case [(e, t). (Inl e, t) \<leftarrow> ps] of
        [] \<Rightarrow> Inr [v. (Inr v, t) \<leftarrow> ps]
      | r # rs \<Rightarrow> Inl (fst (foldl (\<lambda>m x. if snd x < snd m then x else m) r rs)))"

definition gatherContext :: "host \<Rightarrow> jsstring \<Rightarrow> jsstring + jsstring list" where
  "gatherContext h cwd =
     promiseAll [execCommand h GIT_DIFF cwd,
                 execCommand h GIT_NAME_STATUS cwd,
                 execCommand h GIT_BRANCH cwd]"

definition gatherEvents :: "jsstring \<Rightarrow> event list" where
  "gatherEvents cwd = [Exec GIT_DIFF cwd, Exec GIT_NAME_STATUS cwd, Exec GIT_BRANCH cwd]"

text \<open>\<^verbatim>\<open>generateCommitMessage\<close>: the provider's error, or the sanitized text.\<close>

definition generateCommitMessage ::
  "host \<Rightarrow> jsstring \<Rightarrow> jsstring \<Rightarrow> jsstring \<Rightarrow> jsstring \<Rightarrow> jsstring \<Rightarrow> jsstring + jsstring" where
  "generateCommitMessage h diff stagedFiles branchName apiKey modelName =
     (let prompt = buildPrompt diff stagedFiles branchName
      in case generateContent h apiKey modelName prompt of
           Inl err \<Rightarrow> Inl err
         | Inr response \<Rightarrow> Inr (sanitize (trim response)))"

text \<open>The \<^verbatim>\<open>catch\<close> block of the command.\<close>

definition caught :: "jsstring \<Rightarrow> event list" where
  "caught err = [ShowErrorMessage (js ''Git-Msg Error: '' @ err), ConsoleError err]"

text \<open>
  The handler of the command \<^verbatim>\<open>git-msg.generate\<close>: from the settings and the Git
  extension to what the handler does, in order, and the Git extension afterwards
  (activated, and with the message in the input box of the first repository).
\<close>

definition generate ::
  "host \<Rightarrow> git_extension option \<Rightarrow> event list \<times> git_extension option" where
  "generate h gitExtension =
     (let apiKey = cfgGeminiApiKey h;
          modelName = orElse (cfgModel h) DEFAULT_MODEL
      in if falsy apiKey then ([ShowErrorMessage NO_API_KEY], gitExtension)
         else (case gitExtension of
           None \<Rightarrow> ([ShowErrorMessage GIT_EXTENSION_NOT_FOUND], gitExtension)
         | Some ext0 \<Rightarrow>
             if \<not> isActive ext0 \<and> activateError ext0 \<noteq> None
             then (ActivateGitExtension # caught (the (activateError ext0)), gitExtension)
             else
               (let activation = (if isActive ext0 then [] else [ActivateGitExtension]);
                    ext = ext0\<lparr>isActive := True\<rparr>
                in (case repositories ext of
                  None \<Rightarrow> (activation @ [ShowErrorMessage NO_REPOSITORY], Some ext)
                | Some [] \<Rightarrow> (activation @ [ShowErrorMessage NO_REPOSITORY], Some ext)
                | Some (repo # others) \<Rightarrow>
                    (let fetched = activation @ gatherEvents (rootPath repo)
                     in (case gatherContext h (rootPath repo) of
                       Inl err \<Rightarrow> (fetched @ caught err, Some ext)
                     | Inr context \<Rightarrow>
                         (let rawDiff = context ! 0;
                              stagedFiles = context ! 1;
                              branchName = context ! 2
                          in if trim rawDiff = []
                             then (fetched @ [ShowWarningMessage NO_STAGED_CHANGES], Some ext)
                             else
                               (let cleanDiff = preprocessDiff rawDiff;
                                    called = fetched @
                                      [WithProgress PROGRESS_TITLE,
                                       GenerateContent (the apiKey) modelName
                                         (buildPrompt cleanDiff stagedFiles branchName)]
                                in (case generateCommitMessage h cleanDiff stagedFiles branchName
                                           (the apiKey) modelName of
                                      Inl err \<Rightarrow> (called @ caught err, Some ext)
                                    | Inr msg \<Rightarrow>
                                        if msg \<noteq> []
                                        then (called @ [SetInputBox msg,
                                                        ShowInformationMessage MESSAGE_READY],
                                              Some (ext\<lparr>repositories :=
                                                Some (repo\<lparr>inputBox := msg\<rparr> # others)\<rparr>))
                                        else (called, Some ext))))))))))"

text \<open>The staged diff is empty: \<^verbatim>\<open>git diff --cached\<close> succeeds and prints nothing but
  whitespace.\<close>

definition nothingStaged :: "host \<Rightarrow> jsstring \<Rightarrow> bool" where
  "nothingStaged h cwd =
     (case execProcess h GIT_DIFF cwd of
        (ExecOk out, t) \<Rightarrow> trim out = []
      | (ExecError err msg, t) \<Rightarrow> False)"

text \<open>An example: an active Git extension with one repository, and a host whose three Git
  commands succeed and whose provider answers with a fixed text.\<close>

definition EXAMPLE_REPO :: repository where
  "EXAMPLE_REPO = \<lparr>rootPath = js ''/repo'', inputBox = js ''wip''\<rparr>"

definition EXAMPLE_EXT :: git_extension where
  "EXAMPLE_EXT = \<lparr>isActive = True, activateError = None, repositories = Some [EXAMPLE_REPO]\<rparr>"

definition exampleHost :: "jsstring option \<Rightarrow> jsstring \<Rightarrow> jsstring \<Rightarrow> host" where
  "exampleHost key diffOutput response =
     \<lparr>cfgGeminiApiKey = key, cfgModel = None,
      execProcess = (\<lambda>command cwd.
        (ExecOk (if command = GIT_DIFF then diffOutput
                 else if command = GIT_NAME_STATUS then js ''M'' @ 0x09 # js ''f.py''
                 else js ''main''), 0)),
      generateContent = (\<lambda>apiKey modelName prompt. Inr response)\<rparr>"

text \<open>A host with nothing staged in the example repository and something staged in every
  other directory.\<close>

definition stagedElsewhereHost :: host where
  "stagedElsewhereHost =
     \<lparr>cfgGeminiApiKey = Some (js ''key''), cfgModel = None,
      execProcess = (\<lambda>command cwd.
        (ExecOk (if command = GIT_DIFF then (if cwd = js ''/repo'' then js '' '' else js ''+new'')
                 else if command = GIT_NAME_STATUS then js ''M'' @ 0x09 # js ''f.py''
                 else js ''main''), 0)),
      generateContent = (\<lambda>apiKey modelName prompt. Inr (js ''fix: x''))\<rparr>"

section \<open>Proofs\<close>

subsection \<open>Blank lines collapse once\<close>

lemma takeWhile_dropWhile_Nil: "takeWhile P (dropWhile P xs) = []"
  by (induction xs) auto

lemma collapse_run:
  "2 \<le> length (takeWhile (\<lambda>x. x = NL) cs) \<Longrightarrow>
     collapseBlankLines (NL # cs) = NL # NL # collapseBlankLines (dropWhile (\<lambda>x. x = NL) cs)"
  by simp

lemma collapse_copy:
  "c \<noteq> NL \<or> length (takeWhile (\<lambda>x. x = NL) cs) < 2 \<Longrightarrow>
     collapseBlankLines (c # cs) = c # collapseBlankLines cs"
  by auto

declare collapseBlankLines.simps(2) [simp del]

lemma collapse_leading_run:
  "length (takeWhile (\<lambda>x. x = NL) (collapseBlankLines s)) =
     min 2 (length (takeWhile (\<lambda>x. x = NL) s))"
proof (induction s rule: collapseBlankLines.induct)
  case 1
  show ?case by simp
next
  case (2 c cs)
  show ?case
  proof (cases "c = NL \<and> 2 \<le> length (takeWhile (\<lambda>x. x = NL) cs)")
    case True
    have "takeWhile (\<lambda>x. x = NL) (dropWhile (\<lambda>x. x = NL) cs) = []"
      by (rule takeWhile_dropWhile_Nil)
    with 2(1) [OF True]
    have "takeWhile (\<lambda>x. x = NL) (collapseBlankLines (dropWhile (\<lambda>x. x = NL) cs)) = []"
      by simp
    with True show ?thesis by (simp add: collapse_run)
  next
    case False
    then have "collapseBlankLines (c # cs) = c # collapseBlankLines cs"
      by (intro collapse_copy) auto
    with 2(2) [OF False] False show ?thesis by auto
  qed
qed

text \<open>C5: collapsing runs of three or more newlines twice is the same as collapsing
  them once.\<close>

theorem collapseBlankLines_idempotent:
  "collapseBlankLines (collapseBlankLines s) = collapseBlankLines s"
proof (induction s rule: collapseBlankLines.induct)
  case 1
  show ?case by simp
next
  case (2 c cs)
  show ?case
  proof (cases "c = NL \<and> 2 \<le> length (takeWhile (\<lambda>x. x = NL) cs)")
    case True
    let ?r = "collapseBlankLines (dropWhile (\<lambda>x. x = NL) cs)"
    have "takeWhile (\<lambda>x. x = NL) (dropWhile (\<lambda>x. x = NL) cs) = []"
      by (rule takeWhile_dropWhile_Nil)
    then have run: "takeWhile (\<lambda>x. x = NL) ?r = []"
      using collapse_leading_run [of "dropWhile (\<lambda>x. x = NL) cs"] by simp
    have "collapseBlankLines (NL # NL # ?r) = NL # collapseBlankLines (NL # ?r)"
      using run by (intro collapse_copy) simp
    also have "collapseBlankLines (NL # ?r) = NL # collapseBlankLines ?r"
      using run by (intro collapse_copy) simp
    finally show ?thesis
      using 2(1) [OF True] True by (simp add: collapse_run)
  next
    case False
    then have eq: "collapseBlankLines (c # cs) = c # collapseBlankLines cs"
      by (intro collapse_copy) auto
    have "c \<noteq> NL \<or> length (takeWhile (\<lambda>x. x = NL) (collapseBlankLines cs)) < 2"
      using False collapse_leading_run [of cs] by auto
    then have "collapseBlankLines (c # collapseBlankLines cs) =
        c # collapseBlankLines (collapseBlankLines cs)"
      by (rule collapse_copy)
    with 2(2) [OF False] eq show ?thesis by simp
  qed
qed

subsection \<open>Trimming\<close>

lemma trimStart_append_solid:
  "b \<noteq> [] \<Longrightarrow> \<not> isWhiteSpace (hd b) \<Longrightarrow> trimStart (a @ b) = dropWhile isWhiteSpace a @ b"
  by (induction a) (auto simp: trimStart_def dropWhile_eq_self_iff)

lemma trimEnd_append_solid:
  "b \<noteq> [] \<Longrightarrow> \<not> isWhiteSpace (last b) \<Longrightarrow> trimEnd (a @ b) = a @ b"
  by (cases b rule: rev_cases) (auto simp: trimEnd_def)

lemma trim_append_solid:
  assumes "b \<noteq> []" "\<not> isWhiteSpace (hd b)" "\<not> isWhiteSpace (last b)"
  shows "trim (a @ b) = dropWhile isWhiteSpace a @ b"
  using assms by (simp add: trim_def trimStart_append_solid trimEnd_append_solid)

lemma length_trim_le: "length (trim s) \<le> length s"
proof -
  have "length (trim s) \<le> length (trimStart s)"
    unfolding trim_def trimEnd_def using length_dropWhile_le [of isWhiteSpace "rev (trimStart s)"] by simp
  also have "\<dots> \<le> length s"
    by (simp add: trimStart_def length_dropWhile_le)
  finally show ?thesis .
qed

lemma marker_solid:
  "TRUNCATION_MARKER \<noteq> []" "\<not> isWhiteSpace (hd TRUNCATION_MARKER)"
  "\<not> isWhiteSpace (last TRUNCATION_MARKER)" "length TRUNCATION_MARKER = 35"
  by (simp_all add: TRUNCATION_MARKER_def js_def isWhiteSpace_def isLineTerminator_def)


subsection \<open>Lines and the noise patterns\<close>

declare replaceLines.simps [simp del]

lemma replaceLines_noLT:
  assumes "\<forall>c\<in>set s. \<not> isLineTerminator c"
  shows "replaceLines p s = (if p s then [] else s)"
proof -
  have eqs: "takeWhile (\<lambda>c. \<not> isLineTerminator c) s = s"
    "dropWhile (\<lambda>c. \<not> isLineTerminator c) s = []"
    using assms by simp_all
  show ?thesis
    by (subst replaceLines.simps) (simp only: eqs Let_def list.case append_Nil2)
qed

lemma replaceLines_line:
  assumes "isLineTerminator t" "\<forall>c\<in>set a. \<not> isLineTerminator c"
  shows "replaceLines p (a @ t # b) = (if p a then [] else a) @ t # replaceLines p b"
proof -
  have eqs: "takeWhile (\<lambda>c. \<not> isLineTerminator c) (a @ t # b) = a"
    "dropWhile (\<lambda>c. \<not> isLineTerminator c) (a @ t # b) = t # b"
    using assms by (simp_all add: takeWhile_tail)
  show ?thesis
    by (subst replaceLines.simps) (simp only: eqs Let_def list.case)
qed

lemma split_first_line:
  "\<exists>l. (\<forall>c\<in>set l. \<not> isLineTerminator c) \<and>
       (s = l \<or> (\<exists>t r. isLineTerminator t \<and> s = l @ t # r))"
proof -
  let ?l = "takeWhile (\<lambda>c. \<not> isLineTerminator c) s"
  let ?r = "dropWhile (\<lambda>c. \<not> isLineTerminator c) s"
  have l: "\<forall>c\<in>set ?l. \<not> isLineTerminator c"
    by (auto dest: set_takeWhileD)
  show ?thesis
  proof (cases ?r)
    case Nil
    then have "s = ?l" by (metis append_Nil2 takeWhile_dropWhile_id)
    with l show ?thesis by metis
  next
    case (Cons t r)
    then have "isLineTerminator t"
      using hd_dropWhile [of "\<lambda>c. \<not> isLineTerminator c" s] by auto
    moreover have "s = ?l @ t # r"
      using Cons by (metis takeWhile_dropWhile_id)
    ultimately show ?thesis using l by metis
  qed
qed

lemma replaceLines_append:
  assumes t: "isLineTerminator t"
  shows "replaceLines p (a @ t # b) = replaceLines p a @ t # replaceLines p b"
proof (induction a rule: length_induct)
  case (1 a)
  obtain l where l: "\<forall>c\<in>set l. \<not> isLineTerminator c"
    and s: "a = l \<or> (\<exists>u r. isLineTerminator u \<and> a = l @ u # r)"
    using split_first_line [of a] by blast
  from s show ?case
  proof
    assume "a = l"
    then show ?thesis
      using l t by (simp add: replaceLines_line replaceLines_noLT)
  next
    assume "\<exists>u r. isLineTerminator u \<and> a = l @ u # r"
    then obtain u r where u: "isLineTerminator u" and a: "a = l @ u # r" by blast
    have "length r < length a" using a by simp
    with 1 have ih: "replaceLines p (r @ t # b) = replaceLines p r @ t # replaceLines p b"
      by blast
    have "replaceLines p (a @ t # b) = replaceLines p (l @ u # (r @ t # b))"
      using a by simp
    also have "\<dots> = (if p l then [] else l) @ u # replaceLines p (r @ t # b)"
      using u l by (rule replaceLines_line)
    also have "\<dots> = ((if p l then [] else l) @ u # replaceLines p r) @ t # replaceLines p b"
      using ih by simp
    also have "(if p l then [] else l) @ u # replaceLines p r = replaceLines p a"
      unfolding a using u l by (rule replaceLines_line [symmetric])
    finally show ?thesis .
  qed
qed

lemma jsLines_nonempty: "jsLines s \<noteq> []"
  by (induction s) (auto split: list.splits)

lemma jsLines_noLT: "\<forall>c\<in>set s. \<not> isLineTerminator c \<Longrightarrow> jsLines s = [s]"
  by (induction s) auto

lemma jsLines_line:
  "isLineTerminator t \<Longrightarrow> \<forall>c\<in>set a. \<not> isLineTerminator c \<Longrightarrow> jsLines (a @ t # b) = a # jsLines b"
  by (induction a) auto

lemma jsLines_replaceLines:
  "jsLines (replaceLines p s) = map (\<lambda>l. if p l then [] else l) (jsLines s)"
proof (induction s rule: length_induct)
  case (1 s)
  obtain l where l: "\<forall>c\<in>set l. \<not> isLineTerminator c"
    and s: "s = l \<or> (\<exists>u r. isLineTerminator u \<and> s = l @ u # r)"
    using split_first_line [of s] by blast
  from s show ?case
  proof
    assume "s = l"
    then show ?thesis using l by (simp add: replaceLines_noLT jsLines_noLT)
  next
    assume "\<exists>u r. isLineTerminator u \<and> s = l @ u # r"
    then obtain u r where u: "isLineTerminator u" and a: "s = l @ u # r" by blast
    have "length r < length s" using a by simp
    with 1 have ih: "jsLines (replaceLines p r) = map (\<lambda>l. if p l then [] else l) (jsLines r)"
      by blast
    have "\<forall>c\<in>set (if p l then [] else l). \<not> isLineTerminator c"
      using l by simp
    then have "jsLines ((if p l then [] else l) @ u # replaceLines p r) =
        (if p l then [] else l) # jsLines (replaceLines p r)"
      using u by (intro jsLines_line)
    then show ?thesis
      unfolding a using u l ih by (simp add: replaceLines_line jsLines_line)
  qed
qed

lemma removeNoise_unfold:
  "removeNoise s = replaceLines binaryLine (replaceLines newModeLine (replaceLines oldModeLine
     (replaceLines similarityLine (replaceLines indexLine s))))"
  by (simp add: removeNoise_def NOISE_PATTERNS_def)

lemma matchesNoise_iff:
  "matchesNoise l \<longleftrightarrow> indexLine l \<or> similarityLine l \<or> oldModeLine l \<or> newModeLine l \<or> binaryLine l"
  by (simp add: matchesNoise_def NOISE_PATTERNS_def)

lemma patterns_Nil [simp]:
  "\<not> indexLine []" "\<not> similarityLine []" "\<not> oldModeLine []" "\<not> newModeLine []" "\<not> binaryLine []"
  by (simp_all add: indexLine_def similarityLine_def oldModeLine_def newModeLine_def
      binaryLine_def stripPrefix_def js_def)

lemma removeNoise_append:
  "isLineTerminator t \<Longrightarrow> removeNoise (a @ t # b) = removeNoise a @ t # removeNoise b"
  by (simp add: removeNoise_unfold replaceLines_append)

lemma removeNoise_noLT:
  "\<forall>c\<in>set s. \<not> isLineTerminator c \<Longrightarrow> removeNoise s = (if matchesNoise s then [] else s)"
  by (simp add: removeNoise_unfold replaceLines_noLT matchesNoise_iff)

lemma jsLines_removeNoise:
  "jsLines (removeNoise s) = map (\<lambda>l. if matchesNoise l then [] else l) (jsLines s)"
proof -
  have "(\<lambda>l. if binaryLine l then [] else l) \<circ> (\<lambda>l. if newModeLine l then [] else l) \<circ>
      (\<lambda>l. if oldModeLine l then [] else l) \<circ> (\<lambda>l. if similarityLine l then [] else l) \<circ>
      (\<lambda>l. if indexLine l then [] else l) = (\<lambda>l. if matchesNoise l then [] else l)"
    by (auto simp: fun_eq_iff matchesNoise_iff)
  then show ?thesis
    by (simp add: removeNoise_unfold jsLines_replaceLines comp_assoc [symmetric] del: map_map)
       (simp add: comp_assoc)
qed

lemma removeNoise_no_noise_line:
  "l \<in> set (jsLines (removeNoise s)) \<Longrightarrow> \<not> matchesNoise l"
  by (auto simp: jsLines_removeNoise matchesNoise_iff split: if_splits)

lemma collapse_no_NL: "NL \<notin> set s \<Longrightarrow> collapseBlankLines s = s"
  by (induction s) (auto simp: collapse_copy)

lemma jsLines_NL_run: "jsLines (replicate k NL @ r) = replicate k [] @ jsLines r"
  by (induction k) (auto simp: isLineTerminator_def NL_def)

lemma run_split: "cs = replicate (length (takeWhile (\<lambda>x. x = NL) cs)) NL @ dropWhile (\<lambda>x. x = NL) cs"
  by (induction cs) auto

lemma jsLines_collapse:
  "hd (jsLines (collapseBlankLines s)) = hd (jsLines s) \<and>
   set (tl (jsLines (collapseBlankLines s))) \<subseteq> set (tl (jsLines s))"
proof (induction s rule: collapseBlankLines.induct)
  case 1
  show ?case by simp
next
  case (2 c cs)
  show ?case
  proof (cases "c = NL \<and> 2 \<le> length (takeWhile (\<lambda>x. x = NL) cs)")
    case True
    let ?k = "length (takeWhile (\<lambda>x. x = NL) cs)"
    let ?r = "dropWhile (\<lambda>x. x = NL) cs"
    have lt: "isLineTerminator NL" by (simp add: isLineTerminator_def NL_def)
    have cs: "jsLines cs = replicate ?k [] @ jsLines ?r"
      using jsLines_NL_run [of ?k ?r] run_split [of cs] by simp
    have sub: "set (jsLines (collapseBlankLines ?r)) \<subseteq> set (jsLines ?r)"
      using 2(1) [OF True] jsLines_nonempty [of "collapseBlankLines ?r"] jsLines_nonempty [of ?r]
      by (cases "jsLines (collapseBlankLines ?r)"; cases "jsLines ?r") auto
    have "collapseBlankLines (c # cs) = NL # NL # collapseBlankLines ?r"
      using True by (simp add: collapse_run)
    then show ?thesis
      using True lt cs sub by auto
  next
    case False
    then have eq: "collapseBlankLines (c # cs) = c # collapseBlankLines cs"
      by (intro collapse_copy) auto
    show ?thesis
      using 2(2) [OF False] jsLines_nonempty [of "collapseBlankLines cs"] jsLines_nonempty [of cs]
      unfolding eq by (cases "jsLines (collapseBlankLines cs)"; cases "jsLines cs") auto
  qed
qed

lemma set_jsLines_collapse: "set (jsLines (collapseBlankLines s)) \<subseteq> set (jsLines s)"
  using jsLines_collapse [of s] jsLines_nonempty [of "collapseBlankLines s"] jsLines_nonempty [of s]
  by (cases "jsLines (collapseBlankLines s)"; cases "jsLines s") auto

lemma filtered_no_noise_line:
  "l \<in> set (jsLines (collapseBlankLines (removeNoise s))) \<Longrightarrow> \<not> matchesNoise l"
  using set_jsLines_collapse removeNoise_no_noise_line by blast

lemma jsLines_append:
  "jsLines (x @ y) = butlast (jsLines x) @ (last (jsLines x) @ hd (jsLines y)) # tl (jsLines y)"
proof (induction x)
  case Nil
  show ?case using jsLines_nonempty [of y] by simp
next
  case (Cons c x)
  show ?case
  proof (cases "isLineTerminator c")
    case True
    then show ?thesis using Cons jsLines_nonempty [of x] by simp
  next
    case False
    obtain l ls where x: "jsLines x = l # ls"
      using jsLines_nonempty [of x] by (cases "jsLines x") auto
    show ?thesis
      using False Cons x by (cases ls) auto
  qed
qed

lemma interior_lines_append:
  "set (butlast (tl (jsLines m))) \<subseteq> set (jsLines (w @ m @ w'))"
proof -
  obtain l ls where m: "jsLines m = l # ls"
    using jsLines_nonempty [of m] by (cases "jsLines m") auto
  have "set (butlast ls) \<subseteq> set (tl (jsLines (m @ w')))"
    using m by (cases ls) (auto simp: jsLines_append [of m w'])
  also have "\<dots> \<subseteq> set (jsLines (w @ m @ w'))"
    by (auto simp: jsLines_append [of w "m @ w'"])
  finally show ?thesis using m by simp
qed

lemma trim_decompose: "\<exists>w w'. s = w @ trim s @ w'"
proof -
  have "s = takeWhile isWhiteSpace s @ trimStart s"
    by (simp add: trimStart_def)
  moreover have "trimStart s = trim s @ rev (takeWhile isWhiteSpace (rev (trimStart s)))"
    unfolding trim_def trimEnd_def
    by (metis rev_append rev_rev_ident takeWhile_dropWhile_id)
  ultimately show ?thesis by metis
qed

lemma interior_lines_trim: "set (butlast (tl (jsLines (trim s)))) \<subseteq> set (jsLines s)"
proof -
  obtain w w' where "s = w @ trim s @ w'" using trim_decompose by blast
  then show ?thesis using interior_lines_append [of "trim s" w w'] by simp
qed

subsection \<open>Evaluation\<close>

lemmas char_defs = js_def NL_def isLineTerminator_def isWhiteSpace_def isDigit_def isHexLower_def isLetter_def
lemmas pattern_defs = matchesNoise_iff indexLine_def similarityLine_def oldModeLine_def newModeLine_def
  binaryLine_def stripPrefix_def

subsection \<open>The noise filter\<close>

text \<open>C1: when the text is still longer than 12,000 characters after noise removal and
  blank-line collapsing, the output of \<^verbatim>\<open>preprocessDiff\<close> ends with the marker and is at most
  12,000 characters plus the appended text (two newlines and the marker) long.\<close>

theorem preprocessDiff_truncated:
  assumes "length (collapseBlankLines (removeNoise rawDiff)) > MAX_DIFF_CHARS"
  shows "suffix TRUNCATION_MARKER (preprocessDiff rawDiff) \<and>
         length (preprocessDiff rawDiff) \<le> MAX_DIFF_CHARS + length (NL # NL # TRUNCATION_MARKER)"
proof -
  let ?d = "collapseBlankLines (removeNoise rawDiff)"
  let ?a = "take MAX_DIFF_CHARS ?d @ [NL, NL]"
  have "preprocessDiff rawDiff = trim (?a @ TRUNCATION_MARKER)"
    using assms by (simp add: preprocessDiff_def)
  then have eq: "preprocessDiff rawDiff = dropWhile isWhiteSpace ?a @ TRUNCATION_MARKER"
    by (simp only: trim_append_solid [OF marker_solid(1-3)])
  have "length (dropWhile isWhiteSpace ?a) \<le> length ?a"
    by (rule length_dropWhile_le)
  also have "\<dots> \<le> MAX_DIFF_CHARS + 2"
    by simp
  finally show ?thesis
    unfolding eq by (simp add: suffix_def)
qed

lemma long_line_filtered:
  "collapseBlankLines (removeNoise (0x78 # replicate 12000 0x78)) = 0x78 # replicate 12000 0x78"
proof -
  let ?x = "0x78 # replicate 12000 (0x78 :: code_unit)"
  have lt: "\<forall>c\<in>set ?x. \<not> isLineTerminator c"
    by (simp add: isLineTerminator_def)
  have "\<not> matchesNoise ?x"
    by (simp add: pattern_defs js_def)
  with lt have "removeNoise ?x = ?x"
    by (simp only: removeNoise_noLT if_False)
  moreover have "NL \<notin> set ?x"
    by (simp add: NL_def)
  ultimately show ?thesis
    using collapse_no_NL [of ?x] by simp
qed

theorem preprocessDiff_truncated_witness:
  "MAX_DIFF_CHARS < length (collapseBlankLines (removeNoise (0x78 # replicate 12000 0x78))) \<and>
   suffix TRUNCATION_MARKER (preprocessDiff (0x78 # replicate 12000 0x78)) \<and>
   length (preprocessDiff (0x78 # replicate 12000 0x78))
     \<le> MAX_DIFF_CHARS + length (NL # NL # TRUNCATION_MARKER)"
proof -
  have "MAX_DIFF_CHARS < length (collapseBlankLines (removeNoise (0x78 # replicate 12000 0x78)))"
    by (simp only: long_line_filtered) (simp add: MAX_DIFF_CHARS_def)
  then show ?thesis
    using preprocessDiff_truncated [of "0x78 # replicate 12000 0x78"] by blast
qed

text \<open>The bound is attained: a line of 12,001 characters gives an output of 12,037.\<close>

lemma preprocessDiff_bound_attained:
  "length (preprocessDiff (0x78 # replicate 12000 0x78)) = 12037"
proof -
  have "preprocessDiff (0x78 # replicate 12000 0x78) =
      trim ((0x78 # replicate 11999 0x78 @ [NL, NL]) @ TRUNCATION_MARKER)"
    by (simp add: preprocessDiff_def Let_def long_line_filtered MAX_DIFF_CHARS_def)
  also have "\<dots> = dropWhile isWhiteSpace (0x78 # replicate 11999 0x78 @ [NL, NL]) @ TRUNCATION_MARKER"
    by (simp only: trim_append_solid [OF marker_solid(1-3)])
  also have "dropWhile isWhiteSpace (0x78 # replicate 11999 0x78 @ [NL, NL]) =
      0x78 # replicate 11999 0x78 @ [NL, NL]"
    by (simp add: isWhiteSpace_def isLineTerminator_def)
  finally show ?thesis
    by (simp add: marker_solid(4))
qed

lemma trimStart_append_keep:
  "\<exists>c\<in>set a. \<not> isWhiteSpace c \<Longrightarrow> trimStart (a @ b) = trimStart a @ b"
  unfolding trimStart_def by (metis dropWhile_append1)

lemma trimEnd_append_keep:
  "\<exists>c\<in>set b. \<not> isWhiteSpace c \<Longrightarrow> trimEnd (a @ b) = a @ trimEnd b"
proof -
  assume "\<exists>c\<in>set b. \<not> isWhiteSpace c"
  then obtain c where "c \<in> set (rev b)" "\<not> isWhiteSpace c" by auto
  then have "dropWhile isWhiteSpace (rev b @ rev a) = dropWhile isWhiteSpace (rev b) @ rev a"
    by (rule dropWhile_append1)
  then show ?thesis by (simp add: trimEnd_def)
qed

lemma set_trimStart: "(\<exists>c\<in>set a. \<not> isWhiteSpace c) \<Longrightarrow> \<exists>c\<in>set (trimStart a). \<not> isWhiteSpace c"
  unfolding trimStart_def by (induction a) auto

lemma collapse_gap:
  "NL \<notin> set a \<Longrightarrow> NL \<notin> set b \<Longrightarrow> collapseBlankLines (a @ NL # NL # b) = a @ NL # NL # b"
proof (induction a)
  case Nil
  then have b: "takeWhile (\<lambda>x. x = NL) b = []"
    by (cases b) auto
  then have "collapseBlankLines (NL # NL # b) = NL # collapseBlankLines (NL # b)"
    by (intro collapse_copy) simp
  also have "collapseBlankLines (NL # b) = NL # collapseBlankLines b"
    using b by (intro collapse_copy) simp
  finally show ?case using Nil by (simp add: collapse_no_NL)
next
  case (Cons c a)
  then have "c \<noteq> NL" by auto
  then have "collapseBlankLines (c # a @ NL # NL # b) = c # collapseBlankLines (a @ NL # NL # b)"
    by (intro collapse_copy) simp
  with Cons show ?case by simp
qed

text \<open>C8: a matched noise line loses its characters and keeps its newline. Between any
  two texts the two newlines around it stay; and when it stands between two lines that are
  not blank (and not noise themselves, the whole within the budget), the output has a blank
  line there: the two lines are not joined and the two newlines are not collapsed.\<close>

theorem noise_line_leaves_blank_line:
  assumes "noiseLine n"
  shows "removeNoise (a @ NL # n @ NL # b) = removeNoise a @ NL # NL # removeNoise b \<and>
         (solidLine a \<and> solidLine b \<and> length a + 2 + length b \<le> MAX_DIFF_CHARS \<longrightarrow>
            preprocessDiff (a @ NL # n @ NL # b) = trimStart a @ NL # NL # trimEnd b)"
proof -
  have lt: "isLineTerminator NL" by (simp add: isLineTerminator_def NL_def)
  from assms have n: "\<forall>c\<in>set n. \<not> isLineTerminator c" "matchesNoise n"
    by (simp_all add: noiseLine_def list_all_iff)
  then have "removeNoise n = []"
    by (simp add: removeNoise_noLT)
  then have general: "removeNoise (a @ NL # n @ NL # b) = removeNoise a @ NL # NL # removeNoise b"
    using lt by (simp add: removeNoise_append)
  have "preprocessDiff (a @ NL # n @ NL # b) = trimStart a @ NL # NL # trimEnd b"
    if a: "solidLine a" and b: "solidLine b" and len: "length a + 2 + length b \<le> MAX_DIFF_CHARS"
  proof -
    from a have a': "\<forall>c\<in>set a. \<not> isLineTerminator c" "\<not> matchesNoise a" "\<exists>c\<in>set a. \<not> isWhiteSpace c"
      by (simp_all add: solidLine_def list_all_iff list_ex_iff)
    from b have b': "\<forall>c\<in>set b. \<not> isLineTerminator c" "\<not> matchesNoise b" "\<exists>c\<in>set b. \<not> isWhiteSpace c"
      by (simp_all add: solidLine_def list_all_iff list_ex_iff)
    have "removeNoise (a @ NL # n @ NL # b) = a @ NL # NL # b"
      using general a' b' by (simp add: removeNoise_noLT)
    moreover have "NL \<notin> set a" "NL \<notin> set b"
      using a'(1) b'(1) lt by auto
    then have "collapseBlankLines (a @ NL # NL # b) = a @ NL # NL # b"
      by (rule collapse_gap)
    ultimately have "preprocessDiff (a @ NL # n @ NL # b) = trim (a @ NL # NL # b)"
      using len by (simp add: preprocessDiff_def Let_def)
    also have "\<dots> = trimEnd (trimStart a @ (NL # NL # b))"
      using a'(3) by (simp add: trim_def trimStart_append_keep)
    also have "\<dots> = (trimStart a @ [NL, NL]) @ trimEnd b"
      using trimEnd_append_keep [OF b'(3), of "trimStart a @ [NL, NL]"] by simp
    finally show ?thesis by simp
  qed
  with general show ?thesis by blast
qed

theorem noise_line_leaves_blank_line_witness:
  \<open>noiseLine (js ''index 111..222 100644'') \<and>
   solidLine (js ''diff --git a/f.py b/f.py'') \<and> solidLine (js ''--- a/f.py'') \<and>
   preprocessDiff (js ''diff --git a/f.py b/f.py'' @ NL # js ''index 111..222 100644'' @ NL # js ''--- a/f.py'') =
     js ''diff --git a/f.py b/f.py'' @ NL # NL # js ''--- a/f.py''\<close>
proof -
  have n: \<open>noiseLine (js ''index 111..222 100644'')\<close>
    by (simp add: noiseLine_def pattern_defs char_defs)
  have a: \<open>solidLine (js ''diff --git a/f.py b/f.py'')\<close>
    by (simp add: solidLine_def pattern_defs char_defs)
  have b: \<open>solidLine (js ''--- a/f.py'')\<close>
    by (simp add: solidLine_def pattern_defs char_defs)
  have t: \<open>trimStart (js ''diff --git a/f.py b/f.py'') = js ''diff --git a/f.py b/f.py''\<close>
    \<open>trimEnd (js ''--- a/f.py'') = js ''--- a/f.py''\<close>
    by (simp_all add: trimStart_def trimEnd_def char_defs)
  have l: \<open>length (js ''diff --git a/f.py b/f.py'') + 2 + length (js ''--- a/f.py'') \<le> MAX_DIFF_CHARS\<close>
    by (simp add: js_def MAX_DIFF_CHARS_def)
  show ?thesis
    using noise_line_leaves_blank_line [OF n, of \<open>js ''diff --git a/f.py b/f.py''\<close> \<open>js ''--- a/f.py''\<close>]
      n a b l by (simp only: t)
qed

lemma filtered_three_lines:
  assumes n: "noiseLine n" and a: "solidLine a" and b: "solidLine b"
  shows "collapseBlankLines (removeNoise (a @ NL # n @ NL # b)) = a @ NL # NL # b"
proof -
  have lt: "isLineTerminator NL" by (simp add: isLineTerminator_def NL_def)
  from n have n': "\<forall>c\<in>set n. \<not> isLineTerminator c" "matchesNoise n"
    by (simp_all add: noiseLine_def list_all_iff)
  from a have a': "\<forall>c\<in>set a. \<not> isLineTerminator c" "\<not> matchesNoise a"
    by (simp_all add: solidLine_def list_all_iff)
  from b have b': "\<forall>c\<in>set b. \<not> isLineTerminator c" "\<not> matchesNoise b"
    by (simp_all add: solidLine_def list_all_iff)
  have "removeNoise (a @ NL # n @ NL # b) = a @ NL # NL # b"
    using lt n' a' b' by (simp add: removeNoise_append removeNoise_noLT)
  moreover have "NL \<notin> set a" "NL \<notin> set b"
    using a'(1) b'(1) lt by auto
  then have "collapseBlankLines (a @ NL # NL # b) = a @ NL # NL # b"
    by (rule collapse_gap)
  ultimately show ?thesis by simp
qed

lemma collapse_leading_NL:
  assumes "NL \<notin> set b"
  shows "collapseBlankLines (NL # b) = NL # b"
proof -
  have "takeWhile (\<lambda>x. x = NL) b = []"
    using assms by (cases b) auto
  then have "collapseBlankLines (NL # b) = NL # collapseBlankLines b"
    by (intro collapse_copy) simp
  with assms show ?thesis by (simp add: collapse_no_NL)
qed

lemma trim_solid_ends:
  assumes "trimStart a = a" "trimEnd b = b" "\<exists>c\<in>set a. \<not> isWhiteSpace c" "\<exists>c\<in>set b. \<not> isWhiteSpace c"
  shows "trim (a @ m @ b) = a @ m @ b"
proof -
  have "trim (a @ m @ b) = trimEnd ((a @ m) @ b)"
    using assms(1,3) by (simp add: trim_def trimStart_append_keep)
  also have "\<dots> = (a @ m) @ b"
    using assms(2,4) by (simp only: trimEnd_append_keep)
  finally show ?thesis by simp
qed

lemma solidLine_nonblank: "solidLine l \<Longrightarrow> \<exists>c\<in>set l. \<not> isWhiteSpace c"
  by (simp add: solidLine_def list_ex_iff)

lemma jsLines_three:
  assumes "\<forall>c\<in>set a. \<not> isLineTerminator c" "\<forall>c\<in>set n. \<not> isLineTerminator c"
    "\<forall>c\<in>set b. \<not> isLineTerminator c"
  shows "jsLines (a @ NL # n @ NL # b) = [a, n, b]"
  using assms by (simp add: jsLines_line jsLines_noLT isLineTerminator_def NL_def)

text \<open>C4, as amended: the four lines of the claim match a noise pattern; no line that
  matches one is a line of the text after noise removal and blank-line collapsing; and
  when that text is within the budget, no such line stands between the first and the last
  line of the output, and none stands anywhere in the output if trimming changes
  nothing.\<close>

theorem noise_lines_removed:
  \<open>list_all matchesNoise [js ''index abc123..def456 100644'',
      js ''Binary files a/x.png and b/x.png differ'', js ''old mode 100644'', js ''new mode 100755''] \<and>
   (\<forall>l. matchesNoise l \<longrightarrow> l \<notin> set (jsLines (collapseBlankLines (removeNoise rawDiff)))) \<and>
   (length (collapseBlankLines (removeNoise rawDiff)) \<le> MAX_DIFF_CHARS \<longrightarrow>
      (\<forall>l. matchesNoise l \<longrightarrow> l \<notin> set (butlast (tl (jsLines (preprocessDiff rawDiff))))) \<and>
      (trim (collapseBlankLines (removeNoise rawDiff)) = collapseBlankLines (removeNoise rawDiff) \<longrightarrow>
         (\<forall>l. matchesNoise l \<longrightarrow> l \<notin> set (jsLines (preprocessDiff rawDiff)))))\<close>
proof -
  let ?f = "collapseBlankLines (removeNoise rawDiff)"
  have lines: \<open>list_all matchesNoise [js ''index abc123..def456 100644'',
      js ''Binary files a/x.png and b/x.png differ'', js ''old mode 100644'', js ''new mode 100755'']\<close>
    by (simp add: pattern_defs char_defs suffix_to_prefix)
  have f: "\<forall>l. matchesNoise l \<longrightarrow> l \<notin> set (jsLines ?f)"
    using filtered_no_noise_line by blast
  have out: "preprocessDiff rawDiff = trim ?f" if "length ?f \<le> MAX_DIFF_CHARS"
    using that by (simp add: preprocessDiff_def Let_def)
  have "\<forall>l. matchesNoise l \<longrightarrow> l \<notin> set (butlast (tl (jsLines (trim ?f))))"
    using f interior_lines_trim [of ?f] by blast
  with lines f out show ?thesis by simp
qed

theorem noise_lines_removed_witness:
  \<open>js ''index abc123..def456 100644'' \<in> set (jsLines
      (js ''diff --git a/f.py b/f.py'' @ NL # js ''index abc123..def456 100644'' @ NL # js ''--- a/f.py'')) \<and>
   matchesNoise (js ''index abc123..def456 100644'') \<and>
   length (collapseBlankLines (removeNoise
      (js ''diff --git a/f.py b/f.py'' @ NL # js ''index abc123..def456 100644'' @ NL # js ''--- a/f.py'')))
     \<le> MAX_DIFF_CHARS \<and>
   js ''index abc123..def456 100644'' \<notin> set (jsLines (preprocessDiff
      (js ''diff --git a/f.py b/f.py'' @ NL # js ''index abc123..def456 100644'' @ NL # js ''--- a/f.py'')))\<close>
proof -
  let ?a = \<open>js ''diff --git a/f.py b/f.py''\<close>
  let ?n = \<open>js ''index abc123..def456 100644''\<close>
  let ?b = \<open>js ''--- a/f.py''\<close>
  have n: "noiseLine ?n"
    by (simp add: noiseLine_def pattern_defs char_defs)
  have a: "solidLine ?a"
    by (simp add: solidLine_def pattern_defs char_defs)
  have b: "solidLine ?b"
    by (simp add: solidLine_def pattern_defs char_defs)
  have t: "trimStart ?a = ?a" "trimEnd ?b = ?b"
    by (simp_all add: trimStart_def trimEnd_def char_defs)
  have f: "collapseBlankLines (removeNoise (?a @ NL # ?n @ NL # ?b)) = ?a @ NL # NL # ?b"
    using n a b by (rule filtered_three_lines)
  have "trim (?a @ [NL, NL] @ ?b) = ?a @ [NL, NL] @ ?b"
    using t a b by (intro trim_solid_ends solidLine_nonblank)
  then have tf: "trim (?a @ NL # NL # ?b) = ?a @ NL # NL # ?b" by simp
  have len: "length (?a @ NL # NL # ?b) \<le> MAX_DIFF_CHARS"
    by (simp add: js_def MAX_DIFF_CHARS_def)
  have l: "jsLines (?a @ NL # ?n @ NL # ?b) = [?a, ?n, ?b]"
    using a b n by (intro jsLines_three) (simp_all add: solidLine_def noiseLine_def list_all_iff)
  have m: "matchesNoise ?n" using n by (simp add: noiseLine_def)
  show ?thesis
    using noise_lines_removed [of "?a @ NL # ?n @ NL # ?b"] m len
    by (simp only: f tf l) simp
qed

text \<open>C4 as stated fails: trimming the output strips the blank left by the removed line
  and the space before a line that was not noise, and what remains is the line
  \<^verbatim>\<open>old mode 100644\<close>.\<close>

theorem noise_line_in_output:
  \<open>js ''old mode 100644'' \<in> set (jsLines (js ''old mode 100644'' @ NL # js '' old mode 100644'')) \<and>
   js ''old mode 100644'' \<in> set (jsLines (preprocessDiff (js ''old mode 100644'' @ NL # js '' old mode 100644'')))\<close>
proof -
  let ?n = \<open>js ''old mode 100644''\<close>
  let ?s = \<open>js '' old mode 100644''\<close>
  have lt: "isLineTerminator NL" by (simp add: isLineTerminator_def NL_def)
  have n: "\<forall>c\<in>set ?n. \<not> isLineTerminator c" "matchesNoise ?n"
    by (simp_all add: pattern_defs char_defs)
  have s: "\<forall>c\<in>set ?s. \<not> isLineTerminator c" "\<not> matchesNoise ?s" "NL \<notin> set ?s"
    by (simp_all add: pattern_defs char_defs)
  have "removeNoise (?n @ NL # ?s) = NL # ?s"
    using lt n s by (simp add: removeNoise_append removeNoise_noLT)
  moreover have "collapseBlankLines (NL # ?s) = NL # ?s"
    using s(3) by (rule collapse_leading_NL)
  moreover have "trim (NL # ?s) = ?n"
    by (simp add: trim_def trimStart_def trimEnd_def char_defs)
  ultimately have "preprocessDiff (?n @ NL # ?s) = ?n"
    by (simp add: preprocessDiff_def Let_def MAX_DIFF_CHARS_def js_def)
  moreover have "jsLines (?n @ NL # ?s) = [?n, ?s]"
    using lt n(1) s(1) by (simp add: jsLines_line jsLines_noLT)
  moreover have "jsLines ?n = [?n]"
    using n(1) by (rule jsLines_noLT)
  ultimately show ?thesis by simp
qed

subsection \<open>The sanitizer\<close>

lemma trimEnd_Cons_solid: "\<not> isWhiteSpace h \<Longrightarrow> trimEnd (h # t) = h # trimEnd t"
  by (simp add: trimEnd_def dropWhile_append)

lemma trimEnd_idem: "trimEnd (trimEnd s) = trimEnd s"
  by (simp add: trimEnd_def)

lemma trim_idem: "trim (trim s) = trim s"
proof (cases "trimStart s")
  case Nil
  then have e: "trim s = []" by (simp add: trim_def trimEnd_def)
  have "trim [] = []" by (simp add: trim_def trimStart_def trimEnd_def)
  with e show ?thesis by simp
next
  case (Cons h t)
  then have h: "\<not> isWhiteSpace h"
    using hd_dropWhile [of isWhiteSpace s] by (auto simp: trimStart_def)
  then have "trim s = h # trimEnd t"
    using Cons by (simp add: trim_def trimEnd_Cons_solid)
  moreover have "trim (h # trimEnd t) = h # trimEnd t"
    using h by (simp add: trim_def trimStart_def trimEnd_Cons_solid trimEnd_idem)
  ultimately show ?thesis by simp
qed

lemma sanitize_no_fence:
  "\<not> prefix FENCE text \<Longrightarrow> \<not> suffix FENCE text \<Longrightarrow> sanitize text = trim text"
  by (simp add: sanitize_def stripLeadingFence_def stripTrailingFence_def stripPrefix_def)

lemma length_FENCE: "length FENCE = 3"
  by (simp add: FENCE_def js_def)

lemma length_stripLeadingFence: "length (stripLeadingFence t) \<le> length t"
proof -
  have "length (case dropWhile isLetter r of [] \<Rightarrow> [] | c # r' \<Rightarrow> if c = NL then r' else c # r') \<le> length r" for r
    using length_dropWhile_le [of isLetter r] by (auto split: list.splits)
  from this [of "drop (length FENCE) t"] show ?thesis
    by (auto simp: stripLeadingFence_def stripPrefix_def)
qed

lemma length_stripLeadingFence_prefix:
  assumes "prefix FENCE t"
  shows "length (stripLeadingFence t) + 3 \<le> length t"
proof -
  have "length (case dropWhile isLetter r of [] \<Rightarrow> [] | c # r' \<Rightarrow> if c = NL then r' else c # r') \<le> length r" for r
    using length_dropWhile_le [of isLetter r] by (auto split: list.splits)
  from this [of "drop (length FENCE) t"] have "length (stripLeadingFence t) \<le> length t - 3"
    using assms by (simp add: stripLeadingFence_def stripPrefix_def length_FENCE)
  moreover have "3 \<le> length t"
    using assms prefix_length_le [of FENCE t] by (simp add: length_FENCE)
  ultimately show ?thesis by simp
qed

lemma length_stripTrailingFence: "length (stripTrailingFence t) \<le> length t"
  by (simp add: stripTrailingFence_def)

lemma length_stripTrailingFence_suffix:
  assumes "suffix FENCE t"
  shows "length (stripTrailingFence t) + 3 \<le> length t"
  using assms suffix_length_le [of FENCE t] by (simp add: stripTrailingFence_def length_FENCE)

lemma sanitize_shrinks:
  assumes "prefix FENCE t \<or> suffix FENCE t"
  shows "length (sanitize t) < length t"
proof -
  have 1: "length (sanitize t) \<le> length (stripTrailingFence (stripLeadingFence t))"
    by (simp add: sanitize_def length_trim_le)
  show ?thesis
  proof (cases "prefix FENCE t")
    case True
    then show ?thesis
      using 1 length_stripLeadingFence_prefix [of t]
        length_stripTrailingFence [of "stripLeadingFence t"] by simp
  next
    case False
    then have "stripLeadingFence t = t"
      by (simp add: stripLeadingFence_def stripPrefix_def)
    moreover have "suffix FENCE t" using assms False by simp
    ultimately show ?thesis
      using 1 length_stripTrailingFence_suffix [of t] by simp
  qed
qed

lemma sanitize_trimmed: "trim (sanitize t) = sanitize t"
  by (simp add: sanitize_def trim_idem)

text \<open>C2, as amended: sanitizing a second time changes nothing exactly when the first
  result neither starts nor ends with three backticks; each application removes at most
  one fence from each end.\<close>

theorem sanitize_idempotent_iff:
  "sanitize (sanitize text) = sanitize text \<longleftrightarrow>
     \<not> prefix FENCE (sanitize text) \<and> \<not> suffix FENCE (sanitize text)"
proof
  assume eq: "sanitize (sanitize text) = sanitize text"
  show "\<not> prefix FENCE (sanitize text) \<and> \<not> suffix FENCE (sanitize text)"
  proof (rule ccontr)
    assume "\<not> (\<not> prefix FENCE (sanitize text) \<and> \<not> suffix FENCE (sanitize text))"
    then have "length (sanitize (sanitize text)) < length (sanitize text)"
      by (intro sanitize_shrinks) blast
    with eq show False by simp
  qed
next
  assume "\<not> prefix FENCE (sanitize text) \<and> \<not> suffix FENCE (sanitize text)"
  then have "sanitize (sanitize text) = trim (sanitize text)"
    by (intro sanitize_no_fence) simp_all
  then show "sanitize (sanitize text) = sanitize text"
    by (simp add: sanitize_trimmed)
qed

lemmas sanitize_defs = sanitize_def stripLeadingFence_def stripTrailingFence_def stripPrefix_def FENCE_def
  trim_def trimStart_def trimEnd_def suffix_to_prefix

lemma sanitize_double_fence:
  \<open>sanitize (js ''```\<newline>```text\<newline>feat: x\<newline>```\<newline>```'') = js ''```text\<newline>feat: x\<newline>```''\<close>
  \<open>sanitize (js ''```text\<newline>feat: x\<newline>```'') = js ''feat: x''\<close>
  by (simp_all add: sanitize_defs char_defs)

text \<open>C2 as stated fails on a text fenced twice: the first application leaves the inner
  fences, the second removes them.\<close>

theorem sanitize_not_idempotent:
  \<open>sanitize (sanitize (js ''```\<newline>```text\<newline>feat: x\<newline>```\<newline>```'')) \<noteq>
     sanitize (js ''```\<newline>```text\<newline>feat: x\<newline>```\<newline>```'')\<close>
  by (simp only: sanitize_double_fence) (simp add: js_def)

theorem sanitize_idempotent_iff_witness:
  \<open>sanitize (sanitize (js ''```text\<newline>feat: x\<newline>```'')) = sanitize (js ''```text\<newline>feat: x\<newline>```'')\<close>
proof -
  have \<open>\<not> prefix FENCE (js ''feat: x'') \<and> \<not> suffix FENCE (js ''feat: x'')\<close>
    by (simp add: FENCE_def js_def suffix_to_prefix)
  then show ?thesis
    using sanitize_idempotent_iff [of \<open>js ''```text\<newline>feat: x\<newline>```''\<close>]
    unfolding sanitize_double_fence(2) by blast
qed

text \<open>C6: the fenced example is mapped to its content, and a text that neither starts
  nor ends with three backticks is mapped to its trimmed self.\<close>

theorem sanitize_examples:
  \<open>sanitize (js ''```\<newline>feat(x): add y\<newline>```'') = js ''feat(x): add y'' \<and>
   (\<forall>text. \<not> prefix FENCE text \<and> \<not> suffix FENCE text \<longrightarrow> sanitize text = trim text)\<close>
proof -
  have \<open>sanitize (js ''```\<newline>feat(x): add y\<newline>```'') = js ''feat(x): add y''\<close>
    by (simp add: sanitize_defs char_defs)
  then show ?thesis
    using sanitize_no_fence by blast
qed

theorem sanitize_examples_witness:
  \<open>\<not> prefix FENCE (js '' fix(f): update value '') \<and> \<not> suffix FENCE (js '' fix(f): update value '') \<and>
   sanitize (js '' fix(f): update value '') = js ''fix(f): update value''\<close>
proof -
  have f: \<open>\<not> prefix FENCE (js '' fix(f): update value '')\<close> \<open>\<not> suffix FENCE (js '' fix(f): update value '')\<close>
    by (simp_all add: FENCE_def js_def suffix_to_prefix)
  have t: \<open>trim (js '' fix(f): update value '') = js ''fix(f): update value''\<close>
    by (simp add: trim_def trimStart_def trimEnd_def char_defs)
  show ?thesis
    using sanitize_examples f by (simp only: t [symmetric]) blast
qed

subsection \<open>The prompt\<close>

lemma occurrences_iff: "i \<in> set (occurrences p s) \<longleftrightarrow> i \<le> length s \<and> prefix p (drop i s)"
  by (auto simp: occurrences_def less_Suc_eq_le simp del: upt_Suc)

lemma occurrence_at: "s = a @ p @ c \<Longrightarrow> length a \<in> set (occurrences p s)"
  by (simp add: occurrences_iff)

lemma two_members: "x \<in> set l \<Longrightarrow> y \<in> set l \<Longrightarrow> x \<noteq> y \<Longrightarrow> length l \<noteq> 1"
  by (cases l; cases "tl l") auto

lemma suffix_last: "suffix a b \<Longrightarrow> a \<noteq> [] \<Longrightarrow> last b = last a"
  by (auto simp: suffix_def)

lemma trimEnd_append_ws: "\<forall>c\<in>set w. isWhiteSpace c \<Longrightarrow> trimEnd (x @ w) = trimEnd x"
proof -
  assume "\<forall>c\<in>set w. isWhiteSpace c"
  then have "dropWhile isWhiteSpace (rev w @ rev x) = dropWhile isWhiteSpace (rev x)"
    by (intro dropWhile_append2) simp
  then show ?thesis by (simp add: trimEnd_def)
qed

lemma trimEnd_fixed: "trimEnd d = d \<Longrightarrow> d \<noteq> [] \<Longrightarrow> \<not> isWhiteSpace (last d)"
proof (cases d rule: rev_cases)
  case Nil
  assume "d \<noteq> []"
  with Nil show ?thesis by simp
next
  case (snoc ys y)
  assume "trimEnd d = d"
  then have "rev (dropWhile isWhiteSpace (y # rev ys)) = rev (y # rev ys)"
    using snoc by (simp add: trimEnd_def)
  then have "dropWhile isWhiteSpace (y # rev ys) = y # rev ys"
    by (simp only: rev_is_rev_conv)
  then have "\<not> isWhiteSpace y"
    using length_dropWhile_le [of isWhiteSpace "rev ys"]
    by (auto split: if_splits dest: arg_cong [where f = length])
  then show ?thesis using snoc by simp
qed

lemma head_shape: "\<exists>h t. PROMPT_HEAD = NL # h # t \<and> \<not> isWhiteSpace h"
  by (simp add: PROMPT_HEAD_def char_defs)

lemma rules_solid: "\<exists>c\<in>set PROMPT_RULES. \<not> isWhiteSpace c"
proof -
  have "PROMPT_RULES ! 2 = 0x23" "2 < length PROMPT_RULES"
    by (simp_all add: PROMPT_RULES_def js_def)
  then have "0x23 \<in> set PROMPT_RULES" by (metis nth_mem)
  moreover have "\<not> isWhiteSpace 0x23" by (simp add: char_defs)
  ultimately show ?thesis by blast
qed

lemma buildPrompt_unfold:
  "buildPrompt d s b = tl PROMPT_HEAD @ b @ PROMPT_FILES @ s @ trimEnd (PROMPT_RULES @ d @ PROMPT_TAIL)"
proof -
  obtain h t where head: "PROMPT_HEAD = NL # h # t" and h: "\<not> isWhiteSpace h"
    using head_shape by blast
  let ?rest = "b @ PROMPT_FILES @ s"
  let ?end = "PROMPT_RULES @ d @ PROMPT_TAIL"
  have ws: "isWhiteSpace NL" by (simp add: char_defs)
  have "trimStart (PROMPT_HEAD @ ?rest @ ?end) = (h # t) @ ?rest @ ?end"
    using ws h by (simp add: head trimStart_def)
  moreover have "trimEnd (((h # t) @ ?rest) @ ?end) = ((h # t) @ ?rest) @ trimEnd ?end"
    using rules_solid by (intro trimEnd_append_keep) auto
  ultimately show ?thesis
    by (simp add: buildPrompt_def trim_def head)
qed

lemma tail_ws: "\<forall>c\<in>set PROMPT_TAIL. isWhiteSpace c"
  by (simp add: PROMPT_TAIL_def char_defs)

lemma buildPrompt_suffix:
  assumes "trimEnd d = d"
  shows "suffix d (buildPrompt d s b)"
proof (cases "d = []")
  case True
  then show ?thesis by simp
next
  case False
  then have "\<not> isWhiteSpace (last d)"
    using assms trimEnd_fixed by blast
  then have "trimEnd (PROMPT_RULES @ d) = PROMPT_RULES @ d"
    using False by (intro trimEnd_append_solid)
  moreover have "trimEnd ((PROMPT_RULES @ d) @ PROMPT_TAIL) = trimEnd (PROMPT_RULES @ d)"
    using tail_ws by (rule trimEnd_append_ws)
  ultimately have "buildPrompt d s b = (tl PROMPT_HEAD @ b @ PROMPT_FILES @ s @ PROMPT_RULES) @ d"
    by (simp add: buildPrompt_unfold)
  then show ?thesis
    unfolding suffix_def by blast
qed

lemma trimEnd_preprocessDiff: "trimEnd (preprocessDiff raw) = preprocessDiff raw"
  by (simp add: preprocessDiff_def Let_def trim_def trimEnd_idem)

lemma buildPrompt_solid:
  assumes "d \<noteq> []" "\<not> isWhiteSpace (last d)" "\<forall>c\<in>set w. isWhiteSpace c"
  shows "buildPrompt (d @ w) s b = tl PROMPT_HEAD @ b @ PROMPT_FILES @ s @ PROMPT_RULES @ d"
proof -
  have "\<forall>c\<in>set (w @ PROMPT_TAIL). isWhiteSpace c"
    using assms(3) tail_ws by auto
  then have "trimEnd ((PROMPT_RULES @ d) @ (w @ PROMPT_TAIL)) = trimEnd (PROMPT_RULES @ d)"
    by (rule trimEnd_append_ws)
  moreover have "trimEnd (PROMPT_RULES @ d) = PROMPT_RULES @ d"
    using assms(1,2) by (intro trimEnd_append_solid)
  ultimately show ?thesis
    by (simp add: buildPrompt_unfold)
qed

lemma rules_mention_test:
  \<open>PROMPT_RULES = take 137 PROMPT_RULES @ js ''test'' @ drop 141 PROMPT_RULES\<close>
  by (simp add: PROMPT_RULES_def js_def)

lemma singleton_list: "distinct l \<Longrightarrow> set l = {x} \<Longrightarrow> l = [x]"
  by (cases l; cases "tl l") auto

lemma distinct_occurrences: "distinct (occurrences p s)"
  by (simp add: occurrences_def del: upt_Suc)

lemma prefix_drop_nth:
  assumes "prefix b (drop i s)" "j < length b"
  shows "s ! (i + j) = b ! j \<and> i + length b \<le> length s"
proof -
  obtain z where z: "drop i s = b @ z"
    using assms(1) by (auto simp: prefix_def)
  have "length s - i = length b + length z"
    using arg_cong [OF z, of length] by simp
  with assms(2) have len: "i + length b \<le> length s"
    by arith
  then have "s ! (i + j) = drop i s ! j"
    by simp
  also have "\<dots> = b ! j"
    using assms(2) by (simp add: z nth_append)
  finally show ?thesis using len by simp
qed

lemma occurrence_unique:
  assumes c: "c \<in> set b" "c \<notin> set h" "c \<notin> set r"
  shows "occurrences b (h @ b @ r) = [length h]"
proof -
  let ?s = "h @ b @ r"
  define J where "J = {j. j < length b \<and> b ! j = c}"
  have J: "finite J" "J \<noteq> {}"
    using c(1) by (auto simp: J_def in_set_conv_nth)
  have pos: "length h \<le> k \<and> k - length h \<in> J" if "k < length ?s" "?s ! k = c" for k
  proof -
    have "\<not> k < length h"
      using that(2) c(2) by (auto simp: nth_append)
    moreover have "k - length h < length b"
    proof (rule ccontr)
      assume "\<not> k - length h < length b"
      with \<open>\<not> k < length h\<close> have "?s ! k = r ! (k - length h - length b)"
        "k - length h - length b < length r"
        using that(1) by (auto simp: nth_append)
      with that(2) c(3) show False by (metis nth_mem)
    qed
    ultimately show ?thesis
      using that(2) by (auto simp: nth_append J_def)
  qed
  have "i = length h" if i: "i \<in> set (occurrences b ?s)" for i
  proof -
    from i have pre: "prefix b (drop i ?s)"
      by (simp add: occurrences_iff)
    have "0 < length b"
      using c(1) by (cases b) auto
    then have len: "i + length b \<le> length ?s"
      using prefix_drop_nth [OF pre] by blast
    have at: "?s ! (i + j) = b ! j" if "j < length b" for j
      using prefix_drop_nth [OF pre that] by blast
    have shift: "length h \<le> i + j \<and> i + j - length h \<in> J" if "j \<in> J" for j
    proof -
      from that have "j < length b" "b ! j = c" by (simp_all add: J_def)
      then have "i + j < length ?s" "?s ! (i + j) = c"
        using len at by simp_all
      then show ?thesis by (rule pos)
    qed
    have "\<not> length h < i"
    proof
      assume "length h < i"
      moreover have "i + Max J - length h \<in> J"
        using shift [of "Max J"] J by simp
      then have "i + Max J - length h \<le> Max J"
        using J(1) by simp
      ultimately show False by simp
    qed
    moreover have "\<not> i < length h"
    proof
      assume "i < length h"
      moreover have "length h \<le> i + Min J" "i + Min J - length h \<in> J"
        using shift [of "Min J"] J by simp_all
      then have "Min J \<le> i + Min J - length h"
        using J(1) by simp
      ultimately show False
        using \<open>length h \<le> i + Min J\<close> by simp
    qed
    ultimately show ?thesis by simp
  qed
  moreover have "length h \<in> set (occurrences b ?s)"
    by (rule occurrence_at) simp
  ultimately have "set (occurrences b ?s) = {length h}"
    by blast
  with distinct_occurrences show ?thesis
    by (rule singleton_list)
qed

lemma set_trimEnd: "set (trimEnd s) \<subseteq> set s"
  by (auto simp: trimEnd_def dest: set_dropWhileD)

lemma prompt_literals:
  \<open>tl PROMPT_HEAD = js ''You are an expert software engineer writing Git commit messages.\<newline>\<newline>## Context\<newline>Branch: ''\<close>
  \<open>PROMPT_FILES = js ''\<newline>Staged files:\<newline>''\<close>
  \<open>PROMPT_TAIL = js ''\<newline>''\<close>
  by (simp_all add: PROMPT_HEAD_def PROMPT_FILES_def PROMPT_TAIL_def js_def)

lemma template_free_of:
  "list_all (\<lambda>x. x \<noteq> 0x5F \<and> x \<noteq> 0x09) (tl PROMPT_HEAD @ PROMPT_FILES @ PROMPT_RULES @ PROMPT_TAIL)"
  by (simp add: PROMPT_HEAD_def PROMPT_FILES_def PROMPT_RULES_def PROMPT_TAIL_def js_def)

text \<open>C3, as amended: the prompt is the template with each of the three texts inserted
  once. It starts with the role line, the heading \<^verbatim>\<open>## Context\<close> and \<^verbatim>\<open>Branch: \<close>,
  then the branch name, then \<^verbatim>\<open>Staged files:\<close> on a line of its own, then the
  staged-file text, then the rules, the examples and the diff text, with whitespace at the
  end trimmed. A text occurs exactly once, at that place, when one of its characters
  occurs nowhere else in the prompt. The prompt ends with the diff text whenever that
  text does not end with whitespace, as every output of \<^verbatim>\<open>preprocessDiff\<close> does.\<close>

theorem buildPrompt_contains:
  \<open>buildPrompt diff stagedFiles branchName =
     js ''You are an expert software engineer writing Git commit messages.\<newline>\<newline>## Context\<newline>Branch: '' @
     branchName @ js ''\<newline>Staged files:\<newline>'' @ stagedFiles @
     trimEnd (PROMPT_RULES @ diff @ js ''\<newline>'') \<and>
   prefix (js ''You are an expert software engineer writing Git commit messages.\<newline>\<newline>## Context\<newline>Branch: '' @
           branchName @ js ''\<newline>Staged files:\<newline>'' @ stagedFiles)
     (buildPrompt diff stagedFiles branchName) \<and>
   length (tl PROMPT_HEAD) \<in> set (occurrences branchName (buildPrompt diff stagedFiles branchName)) \<and>
   length (tl PROMPT_HEAD @ branchName @ PROMPT_FILES)
     \<in> set (occurrences stagedFiles (buildPrompt diff stagedFiles branchName)) \<and>
   sublist branchName (buildPrompt diff stagedFiles branchName) \<and>
   sublist stagedFiles (buildPrompt diff stagedFiles branchName) \<and>
   (\<forall>c. c \<in> set branchName \<and>
        c \<notin> set (tl PROMPT_HEAD @ PROMPT_FILES @ stagedFiles @ PROMPT_RULES @ diff @ PROMPT_TAIL) \<longrightarrow>
      occurrences branchName (buildPrompt diff stagedFiles branchName) = [length (tl PROMPT_HEAD)]) \<and>
   (\<forall>c. c \<in> set stagedFiles \<and>
        c \<notin> set (tl PROMPT_HEAD @ branchName @ PROMPT_FILES @ PROMPT_RULES @ diff @ PROMPT_TAIL) \<longrightarrow>
      occurrences stagedFiles (buildPrompt diff stagedFiles branchName) =
        [length (tl PROMPT_HEAD @ branchName @ PROMPT_FILES)]) \<and>
   (trimEnd diff = diff \<longrightarrow> suffix diff (buildPrompt diff stagedFiles branchName)) \<and>
   (trimEnd diff = diff \<and> diff \<noteq> [] \<longrightarrow>
      buildPrompt diff stagedFiles branchName =
        tl PROMPT_HEAD @ branchName @ PROMPT_FILES @ stagedFiles @ PROMPT_RULES @ diff) \<and>
   suffix (preprocessDiff rawDiff) (buildPrompt (preprocessDiff rawDiff) stagedFiles branchName)\<close>
proof -
  let ?p = "buildPrompt diff stagedFiles branchName"
  let ?e = "trimEnd (PROMPT_RULES @ diff @ PROMPT_TAIL)"
  have 0: "?p = tl PROMPT_HEAD @ branchName @ PROMPT_FILES @ stagedFiles @ ?e"
    by (rule buildPrompt_unfold)
  have 1: "?p = tl PROMPT_HEAD @ branchName @ (PROMPT_FILES @ stagedFiles @ ?e)"
    by (simp add: buildPrompt_unfold)
  have 2: "?p = (tl PROMPT_HEAD @ branchName @ PROMPT_FILES) @ stagedFiles @ ?e"
    by (simp add: buildPrompt_unfold)
  have e: "set ?e \<subseteq> set (PROMPT_RULES @ diff @ PROMPT_TAIL)"
    by (rule set_trimEnd)
  have lit: \<open>?p = js ''You are an expert software engineer writing Git commit messages.\<newline>\<newline>## Context\<newline>Branch: '' @
     branchName @ js ''\<newline>Staged files:\<newline>'' @ stagedFiles @
     trimEnd (PROMPT_RULES @ diff @ js ''\<newline>'')\<close>
    using 0 by (simp only: prompt_literals)
  have pre: \<open>prefix (js ''You are an expert software engineer writing Git commit messages.\<newline>\<newline>## Context\<newline>Branch: '' @
           branchName @ js ''\<newline>Staged files:\<newline>'' @ stagedFiles) ?p\<close>
    unfolding prefix_def using lit by (metis append.assoc)
  have "sublist branchName ?p"
    unfolding sublist_def using 1 by blast
  moreover have "sublist stagedFiles ?p"
    unfolding sublist_def using 2 by blast
  moreover have "occurrences branchName ?p = [length (tl PROMPT_HEAD)]"
    if "c \<in> set branchName"
      "c \<notin> set (tl PROMPT_HEAD @ PROMPT_FILES @ stagedFiles @ PROMPT_RULES @ diff @ PROMPT_TAIL)" for c
  proof -
    have "c \<notin> set (tl PROMPT_HEAD)" "c \<notin> set (PROMPT_FILES @ stagedFiles @ ?e)"
      using that(2) e by auto
    with that(1) show ?thesis
      unfolding 1 by (rule occurrence_unique)
  qed
  moreover have "occurrences stagedFiles ?p = [length (tl PROMPT_HEAD @ branchName @ PROMPT_FILES)]"
    if "c \<in> set stagedFiles"
      "c \<notin> set (tl PROMPT_HEAD @ branchName @ PROMPT_FILES @ PROMPT_RULES @ diff @ PROMPT_TAIL)" for c
  proof -
    have "c \<notin> set (tl PROMPT_HEAD @ branchName @ PROMPT_FILES)" "c \<notin> set ?e"
      using that(2) e by auto
    with that(1) show ?thesis
      unfolding 2 by (rule occurrence_unique)
  qed
  moreover have "?p = tl PROMPT_HEAD @ branchName @ PROMPT_FILES @ stagedFiles @ PROMPT_RULES @ diff"
    if "trimEnd diff = diff" "diff \<noteq> []"
    using buildPrompt_solid [of diff "[]" stagedFiles branchName] trimEnd_fixed [OF that] that(2)
    by simp
  moreover note occurrence_at [OF 1] occurrence_at [OF 2] buildPrompt_suffix
    buildPrompt_suffix [OF trimEnd_preprocessDiff] lit pre
  ultimately show ?thesis by blast
qed

theorem buildPrompt_contains_witness:
  \<open>trimEnd (js ''+new'') = js ''+new'' \<and>
   suffix (js ''+new'') (buildPrompt (js ''+new'') (js ''M'' @ 0x09 # js ''f.py'') (js ''fix_login'')) \<and>
   prefix (js ''You are an expert software engineer writing Git commit messages.\<newline>\<newline>## Context\<newline>Branch: '' @
           js ''fix_login'' @ js ''\<newline>Staged files:\<newline>'' @ (js ''M'' @ 0x09 # js ''f.py''))
     (buildPrompt (js ''+new'') (js ''M'' @ 0x09 # js ''f.py'') (js ''fix_login'')) \<and>
   occurrences (js ''fix_login'')
     (buildPrompt (js ''+new'') (js ''M'' @ 0x09 # js ''f.py'') (js ''fix_login'')) = [85] \<and>
   occurrences (js ''M'' @ 0x09 # js ''f.py'')
     (buildPrompt (js ''+new'') (js ''M'' @ 0x09 # js ''f.py'') (js ''fix_login'')) = [109]\<close>
proof -
  let ?d = \<open>js ''+new''\<close>
  let ?s = \<open>js ''M'' @ 0x09 # js ''f.py''\<close>
  let ?b = \<open>js ''fix_login''\<close>
  have t: "trimEnd ?d = ?d"
    by (simp add: trimEnd_def char_defs)
  have tf: "\<forall>x\<in>set (tl PROMPT_HEAD @ PROMPT_FILES @ PROMPT_RULES @ PROMPT_TAIL). x \<noteq> 0x5F \<and> x \<noteq> 0x09"
    using template_free_of by (simp only: list_all_iff)
  have b: "0x5F \<in> set ?b" "0x09 \<notin> set ?b"
    by (simp_all add: js_def)
  have s: "0x09 \<in> set ?s" "0x5F \<notin> set ?s"
    by (simp_all add: js_def)
  have d: "0x5F \<notin> set ?d" "0x09 \<notin> set ?d"
    by (simp_all add: js_def)
  have c1: "0x5F \<notin> set (tl PROMPT_HEAD @ PROMPT_FILES @ ?s @ PROMPT_RULES @ ?d @ PROMPT_TAIL)"
    using tf s(2) d(1) by auto
  have c2: "0x09 \<notin> set (tl PROMPT_HEAD @ ?b @ PROMPT_FILES @ PROMPT_RULES @ ?d @ PROMPT_TAIL)"
    using tf b(2) d(2) by auto
  have l: "length (tl PROMPT_HEAD) = 85" "length (tl PROMPT_HEAD @ ?b @ PROMPT_FILES) = 109"
    by (simp_all add: prompt_literals js_def)
  show ?thesis
    using buildPrompt_contains [of ?d ?s ?b] t b(1) s(1) c1 c2
    unfolding l by blast
qed

text \<open>C3 as stated fails: on the branch \<^verbatim>\<open>test\<close> the name occurs a second time, in
  the list of allowed types of the template; and a diff text that ends with a space is
  not what the trimmed prompt ends with.\<close>

theorem buildPrompt_not_exactly_once:
  \<open>length (occurrences (js ''test'')
      (buildPrompt (js ''+new'') (js ''M'' @ 0x09 # js ''f.py'') (js ''test''))) \<noteq> 1 \<and>
   \<not> suffix (js ''+new '')
      (buildPrompt (js ''+new '') (js ''M'' @ 0x09 # js ''f.py'') (js ''main''))\<close>
proof -
  let ?s = \<open>js ''M'' @ 0x09 # js ''f.py''\<close>
  let ?b = \<open>js ''test''\<close>
  let ?d = \<open>js ''+new''\<close>
  have d: "?d \<noteq> []" "\<not> isWhiteSpace (last ?d)"
    by (simp_all add: char_defs)
  have p: "buildPrompt ?d ?s ?b = tl PROMPT_HEAD @ ?b @ PROMPT_FILES @ ?s @ PROMPT_RULES @ ?d"
    using buildPrompt_solid [OF d, of "[]" ?s ?b] by simp
  have 1: "buildPrompt ?d ?s ?b = tl PROMPT_HEAD @ ?b @ (PROMPT_FILES @ ?s @ PROMPT_RULES @ ?d)"
    using p by simp
  have "buildPrompt ?d ?s ?b = tl PROMPT_HEAD @ ?b @ PROMPT_FILES @ ?s @
      (take 137 PROMPT_RULES @ ?b @ drop 141 PROMPT_RULES) @ ?d"
    using p rules_mention_test by simp
  then have 2: "buildPrompt ?d ?s ?b = (tl PROMPT_HEAD @ ?b @ PROMPT_FILES @ ?s @ take 137 PROMPT_RULES)
      @ ?b @ (drop 141 PROMPT_RULES @ ?d)"
    by simp
  have "length (tl PROMPT_HEAD) \<noteq> length (tl PROMPT_HEAD @ ?b @ PROMPT_FILES @ ?s @ take 137 PROMPT_RULES)"
    by (simp add: js_def)
  then have once: "length (occurrences ?b (buildPrompt ?d ?s ?b)) \<noteq> 1"
    using occurrence_at [OF 1] occurrence_at [OF 2] by (rule two_members [rotated 2])
  have "\<forall>c\<in>set (js '' ''). isWhiteSpace c"
    by (simp add: char_defs)
  then have "buildPrompt (?d @ js '' '') ?s (js ''main'') =
      tl PROMPT_HEAD @ js ''main'' @ PROMPT_FILES @ ?s @ PROMPT_RULES @ ?d"
    using d by (intro buildPrompt_solid)
  moreover have \<open>?d @ js '' '' = js ''+new ''\<close>
    by (simp add: js_def)
  ultimately have q: \<open>buildPrompt (js ''+new '') ?s (js ''main'') =
      (tl PROMPT_HEAD @ js ''main'' @ PROMPT_FILES @ ?s @ PROMPT_RULES) @ ?d\<close>
    by simp
  have \<open>\<not> suffix (js ''+new '') (buildPrompt (js ''+new '') ?s (js ''main''))\<close>
  proof
    assume \<open>suffix (js ''+new '') (buildPrompt (js ''+new '') ?s (js ''main''))\<close>
    then have \<open>last (buildPrompt (js ''+new '') ?s (js ''main'')) = last (js ''+new '')\<close>
      by (rule suffix_last) (simp add: js_def)
    moreover have \<open>last (buildPrompt (js ''+new '') ?s (js ''main'')) = last ?d\<close>
      unfolding q using d(1) by (rule last_appendR)
    ultimately show False by (simp add: js_def)
  qed
  with once show ?thesis by blast
qed

subsection \<open>The command\<close>

lemma trim_Nil [simp]: "trim [] = []"
  by (simp add: trim_def trimStart_def trimEnd_def)

lemma execCommand_Inr:
  "fst (execCommand h c d) = Inr v \<longleftrightarrow> (\<exists>out. fst (execProcess h c d) = ExecOk out \<and> v = trim out)"
  by (cases "execProcess h c d"; cases "fst (execProcess h c d)") (auto simp: execCommand_def)

lemma promiseAll3_Inr:
  "promiseAll [a, b, c] = Inr ctx \<longleftrightarrow>
     (\<exists>x y z. fst a = Inr x \<and> fst b = Inr y \<and> fst c = Inr z \<and> ctx = [x, y, z])"
  by (cases a; cases b; cases c; cases "fst a"; cases "fst b"; cases "fst c")
     (auto simp: promiseAll_def)

lemma gatherContext_Inr:
  "gatherContext h cwd = Inr ctx \<longleftrightarrow>
     (\<exists>o1 o2 o3. fst (execProcess h GIT_DIFF cwd) = ExecOk o1 \<and>
        fst (execProcess h GIT_NAME_STATUS cwd) = ExecOk o2 \<and>
        fst (execProcess h GIT_BRANCH cwd) = ExecOk o3 \<and> ctx = [trim o1, trim o2, trim o3])"
  unfolding gatherContext_def promiseAll3_Inr execCommand_Inr by blast

lemma nothingStaged_context:
  assumes "nothingStaged h cwd" "gatherContext h cwd = Inr ctx"
  shows "trim (ctx ! 0) = []"
proof -
  obtain o1 o2 o3 where o: "fst (execProcess h GIT_DIFF cwd) = ExecOk o1"
    and ctx: "ctx = [trim o1, trim o2, trim o3]"
    using assms(2) unfolding gatherContext_Inr by blast
  from o assms(1) have "trim o1 = []"
    by (cases "execProcess h GIT_DIFF cwd") (simp add: nothingStaged_def)
  then show ?thesis
    using ctx by (simp add: trim_idem)
qed


lemma no_call_before_provider [simp]:
  "\<not> list_ex isGenerateContent (gatherEvents cwd)" "\<not> list_ex isGenerateContent (caught err)"
  "\<not> list_ex isSetInputBox (gatherEvents cwd)" "\<not> list_ex isSetInputBox (caught err)"
  "\<not> list_ex isShowInformationMessage (gatherEvents cwd)"
  "\<not> list_ex isShowInformationMessage (caught err)"
  "\<not> list_ex isExec (caught err)"
  by (simp_all add: gatherEvents_def caught_def)

text \<open>C7: when the staged diff fetched in the open repository (the first one of the Git
  extension) is empty, the provider is not called, whatever else happens; and when the run
  gets as far as the three Git commands and they succeed, it ends with the warning that
  nothing is staged.\<close>

theorem nothing_staged_stops:
  assumes "g = Some ext" and "repositories ext = Some (repo # others)"
    and "nothingStaged h (rootPath repo)"
  shows "\<not> list_ex isGenerateContent (fst (generate h g)) \<and>
         (\<not> falsy (cfgGeminiApiKey h) \<and> (isActive ext \<or> activateError ext = None) \<and>
          gatherContext h (rootPath repo) = Inr ctx \<longrightarrow>
            generate h g =
              ((if isActive ext then [] else [ActivateGitExtension]) @ gatherEvents (rootPath repo) @
                 [ShowWarningMessage NO_STAGED_CHANGES],
               Some (ext\<lparr>isActive := True\<rparr>)))"
proof -
  have ws: "trim (c ! 0) = []" if "gatherContext h (rootPath repo) = Inr c" for c
    using assms(3) that by (rule nothingStaged_context)
  have "\<not> list_ex isGenerateContent (fst (generate h g))"
    using assms(1,2) by (auto simp: generate_def Let_def ws split: sum.splits)
  moreover have "generate h g =
      ((if isActive ext then [] else [ActivateGitExtension]) @ gatherEvents (rootPath repo) @
         [ShowWarningMessage NO_STAGED_CHANGES], Some (ext\<lparr>isActive := True\<rparr>))"
    if "\<not> falsy (cfgGeminiApiKey h)" "isActive ext \<or> activateError ext = None"
      "gatherContext h (rootPath repo) = Inr ctx"
    using that assms(1,2) ws [OF that(3)] by (auto simp: generate_def Let_def)
  ultimately show ?thesis by blast
qed

lemma exampleHost_context:
  "gatherContext (exampleHost key out response) cwd =
     Inr [trim out, js ''M'' @ 0x09 # js ''f.py'', js ''main'']"
proof -
  have "GIT_NAME_STATUS \<noteq> GIT_DIFF" "GIT_BRANCH \<noteq> GIT_DIFF" "GIT_BRANCH \<noteq> GIT_NAME_STATUS"
    by (simp_all add: GIT_DIFF_def GIT_NAME_STATUS_def GIT_BRANCH_def js_def)
  moreover have "trim (js ''M'' @ 0x09 # js ''f.py'') = js ''M'' @ 0x09 # js ''f.py''"
    "trim (js ''main'') = js ''main''"
    by (simp_all add: trim_def trimStart_def trimEnd_def char_defs)
  ultimately show ?thesis
    by (simp add: gatherContext_Inr exampleHost_def)
qed

theorem nothing_staged_stops_witness:
  "nothingStaged stagedElsewhereHost (js ''/repo'') \<and>
   \<not> nothingStaged stagedElsewhereHost (js ''/elsewhere'') \<and>
   generate stagedElsewhereHost (Some EXAMPLE_EXT) =
     (gatherEvents (js ''/repo'') @ [ShowWarningMessage NO_STAGED_CHANGES], Some EXAMPLE_EXT)"
proof -
  let ?h = stagedElsewhereHost
  have t: "trim (js '' '') = []" "trim (js ''+new'') \<noteq> []"
    by (simp_all add: trim_def trimStart_def trimEnd_def char_defs)
  have ne: "js ''/elsewhere'' \<noteq> js ''/repo''"
    by (simp add: js_def)
  have n: "nothingStaged ?h (js ''/repo'')" "\<not> nothingStaged ?h (js ''/elsewhere'')"
    using t ne by (simp_all add: nothingStaged_def stagedElsewhereHost_def)
  have k: "\<not> falsy (cfgGeminiApiKey ?h)"
    by (simp add: falsy_def stagedElsewhereHost_def js_def)
  have e: "isActive EXAMPLE_EXT \<or> activateError EXAMPLE_EXT = None"
    "repositories EXAMPLE_EXT = Some (EXAMPLE_REPO # [])"
    by (simp_all add: EXAMPLE_EXT_def)
  have e': "isActive EXAMPLE_EXT" "rootPath EXAMPLE_REPO = js ''/repo''"
    "EXAMPLE_EXT\<lparr>isActive := True\<rparr> = EXAMPLE_EXT"
    by (simp_all add: EXAMPLE_EXT_def EXAMPLE_REPO_def)
  have "\<exists>ctx. gatherContext ?h (js ''/repo'') = Inr ctx"
    by (simp add: gatherContext_Inr stagedElsewhereHost_def)
  then obtain ctx where c: "gatherContext ?h (rootPath EXAMPLE_REPO) = Inr ctx"
    unfolding e'(2) by blast
  have n': "nothingStaged ?h (rootPath EXAMPLE_REPO)"
    using n(1) by (simp only: e'(2))
  show ?thesis
    using nothing_staged_stops [OF refl e(2) n', of ctx] k e(1) c n
    by (simp add: e')
qed

text \<open>C9: when every step succeeds and the sanitized message is empty, the run ends after
  the call of the provider: the input box is not written, no success notification is
  shown, and the repositories are as they were.\<close>

theorem empty_message_not_delivered:
  assumes "\<not> falsy (cfgGeminiApiKey h)"
    and "isActive ext \<or> activateError ext = None"
    and "repositories ext = Some (repo # others)"
    and "gatherContext h (rootPath repo) = Inr ctx"
    and "trim (ctx ! 0) \<noteq> []"
    and "generateCommitMessage h (preprocessDiff (ctx ! 0)) (ctx ! 1) (ctx ! 2)
           (the (cfgGeminiApiKey h)) (orElse (cfgModel h) DEFAULT_MODEL) = Inr []"
  shows "generate h (Some ext) =
           ((if isActive ext then [] else [ActivateGitExtension]) @ gatherEvents (rootPath repo) @
              [WithProgress PROGRESS_TITLE,
               GenerateContent (the (cfgGeminiApiKey h)) (orElse (cfgModel h) DEFAULT_MODEL)
                 (buildPrompt (preprocessDiff (ctx ! 0)) (ctx ! 1) (ctx ! 2))],
            Some (ext\<lparr>isActive := True\<rparr>)) \<and>
         \<not> list_ex isSetInputBox (fst (generate h (Some ext))) \<and>
         \<not> list_ex isShowInformationMessage (fst (generate h (Some ext))) \<and>
         map_option repositories (snd (generate h (Some ext))) = Some (repositories ext)"
proof -
  have "generate h (Some ext) =
      ((if isActive ext then [] else [ActivateGitExtension]) @ gatherEvents (rootPath repo) @
         [WithProgress PROGRESS_TITLE,
          GenerateContent (the (cfgGeminiApiKey h)) (orElse (cfgModel h) DEFAULT_MODEL)
            (buildPrompt (preprocessDiff (ctx ! 0)) (ctx ! 1) (ctx ! 2))],
       Some (ext\<lparr>isActive := True\<rparr>))"
    using assms by (auto simp: generate_def Let_def)
  then show ?thesis by simp
qed

theorem empty_message_not_delivered_witness:
  \<open>generate (exampleHost (Some (js ''key'')) (js ''+new'') (js ''```\<newline>```'')) (Some EXAMPLE_EXT) =
     (gatherEvents (js ''/repo'') @
        [WithProgress PROGRESS_TITLE,
         GenerateContent (js ''key'') DEFAULT_MODEL
           (buildPrompt (preprocessDiff (js ''+new'')) (js ''M'' @ 0x09 # js ''f.py'') (js ''main''))],
      Some EXAMPLE_EXT) \<and>
   map_option repositories
     (snd (generate (exampleHost (Some (js ''key'')) (js ''+new'') (js ''```\<newline>```'')) (Some EXAMPLE_EXT))) =
     Some (Some [EXAMPLE_REPO])\<close>
proof -
  let ?h = \<open>exampleHost (Some (js ''key'')) (js ''+new'') (js ''```\<newline>```'')\<close>
  let ?ctx = "[js ''+new'', js ''M'' @ 0x09 # js ''f.py'', js ''main'']"
  have t: "trim (js ''+new'') = js ''+new''"
    by (simp add: trim_def trimStart_def trimEnd_def char_defs)
  have c: "gatherContext ?h (rootPath EXAMPLE_REPO) = Inr ?ctx"
    using exampleHost_context [of "Some (js ''key'')" "js ''+new''" _ "rootPath EXAMPLE_REPO"]
    by (simp only: t)
  have k: "\<not> falsy (cfgGeminiApiKey ?h)" "the (cfgGeminiApiKey ?h) = js ''key''"
    "orElse (cfgModel ?h) DEFAULT_MODEL = DEFAULT_MODEL"
    by (simp_all add: falsy_def orElse_def exampleHost_def js_def)
  have e: "isActive EXAMPLE_EXT \<or> activateError EXAMPLE_EXT = None"
    "repositories EXAMPLE_EXT = Some (EXAMPLE_REPO # [])"
    by (simp_all add: EXAMPLE_EXT_def)
  have e': "isActive EXAMPLE_EXT" "rootPath EXAMPLE_REPO = js ''/repo''"
    "EXAMPLE_EXT\<lparr>isActive := True\<rparr> = EXAMPLE_EXT"
    by (simp_all add: EXAMPLE_EXT_def EXAMPLE_REPO_def)
  have n: "trim (?ctx ! 0) \<noteq> []"
    by (simp add: t) (simp add: js_def)
  have \<open>sanitize (trim (js ''```\<newline>```'')) = []\<close>
    by (simp add: sanitize_defs char_defs)
  then have g: "generateCommitMessage ?h (preprocessDiff (?ctx ! 0)) (?ctx ! 1) (?ctx ! 2)
      (the (cfgGeminiApiKey ?h)) (orElse (cfgModel ?h) DEFAULT_MODEL) = Inr []"
    by (simp add: generateCommitMessage_def exampleHost_def)
  show ?thesis
    using empty_message_not_delivered [OF k(1) e c n g]
    by (simp add: k e e')
qed

lemma model_irrelevant:
  "gatherContext (h\<lparr>cfgModel := m\<rparr>) = gatherContext h"
  "generateCommitMessage (h\<lparr>cfgModel := m\<rparr>) = generateCommitMessage h"
  by (simp_all add: fun_eq_iff gatherContext_def execCommand_def generateCommitMessage_def)

lemma not_provider_call [simp]:
  "GenerateContent k m p \<notin> set (gatherEvents cwd)" "GenerateContent k m p \<notin> set (caught err)"
  by (simp_all add: gatherEvents_def caught_def)

text \<open>C10: with an API key that is absent or empty the run is the configuration error
  alone, with no Git command and no call of the provider; with a model setting that is
  absent or empty every call of the provider names the model \<^verbatim>\<open>gemini-2.0-flash\<close>, and
  the run is the run with that setting.\<close>

theorem empty_api_key_is_absent:
  \<open>(cfgGeminiApiKey h = None \<or> cfgGeminiApiKey h = Some [] \<longrightarrow>
      generate h g = ([ShowErrorMessage NO_API_KEY], g) \<and>
      \<not> list_ex isExec (fst (generate h g)) \<and>
      \<not> list_ex isGenerateContent (fst (generate h g))) \<and>
   (cfgModel h = None \<or> cfgModel h = Some [] \<longrightarrow>
      (\<forall>k m p. GenerateContent k m p \<in> set (fst (generate h g)) \<longrightarrow> m = js ''gemini-2.0-flash'')) \<and>
   generate (h\<lparr>cfgModel := Some []\<rparr>) g = generate (h\<lparr>cfgModel := Some DEFAULT_MODEL\<rparr>) g \<and>
   generate (h\<lparr>cfgModel := None\<rparr>) g = generate (h\<lparr>cfgModel := Some DEFAULT_MODEL\<rparr>) g\<close>
proof -
  have key: "generate h g = ([ShowErrorMessage NO_API_KEY], g)"
    if "cfgGeminiApiKey h = None \<or> cfgGeminiApiKey h = Some []"
    using that by (auto simp: generate_def falsy_def)
  have same: "generate (h\<lparr>cfgModel := m\<rparr>) g = generate (h\<lparr>cfgModel := m'\<rparr>) g"
    if "orElse m DEFAULT_MODEL = orElse m' DEFAULT_MODEL" for m m'
    unfolding generate_def model_irrelevant using that by simp
  have m1: "generate (h\<lparr>cfgModel := Some []\<rparr>) g = generate (h\<lparr>cfgModel := Some DEFAULT_MODEL\<rparr>) g"
    by (rule same) (simp add: orElse_def)
  have m2: "generate (h\<lparr>cfgModel := None\<rparr>) g = generate (h\<lparr>cfgModel := Some DEFAULT_MODEL\<rparr>) g"
    by (rule same) (simp add: orElse_def)
  have "generate h g = ([ShowErrorMessage NO_API_KEY], g) \<and>
      \<not> list_ex isExec (fst (generate h g)) \<and>
      \<not> list_ex isGenerateContent (fst (generate h g))"
    if "cfgGeminiApiKey h = None \<or> cfgGeminiApiKey h = Some []"
    using key [OF that] by simp
  moreover have "m = js ''gemini-2.0-flash''"
    if "cfgModel h = None \<or> cfgModel h = Some []"
      "GenerateContent k m p \<in> set (fst (generate h g))" for k m p
  proof -
    have "orElse (cfgModel h) DEFAULT_MODEL = js ''gemini-2.0-flash''"
      using that(1) by (auto simp: orElse_def DEFAULT_MODEL_def)
    with that(2) show ?thesis
      by (auto simp: generate_def Let_def split: option.splits list.splits sum.splits if_splits)
  qed
  ultimately show ?thesis using m1 m2 by blast
qed

theorem empty_api_key_is_absent_witness:
  "generate (exampleHost (Some []) (js ''+new'') (js ''fix: x'')) (Some EXAMPLE_EXT) =
     ([ShowErrorMessage NO_API_KEY], Some EXAMPLE_EXT) \<and>
   generate (exampleHost None (js ''+new'') (js ''fix: x'')) (Some EXAMPLE_EXT) =
     ([ShowErrorMessage NO_API_KEY], Some EXAMPLE_EXT) \<and>
   GenerateContent (js ''key'') (js ''gemini-2.0-flash'')
       (buildPrompt (preprocessDiff (js ''+new'')) (js ''M'' @ 0x09 # js ''f.py'') (js ''main''))
     \<in> set (fst (generate ((exampleHost (Some (js ''key'')) (js ''+new'') (js ''fix: x''))\<lparr>cfgModel := Some []\<rparr>)
                 (Some EXAMPLE_EXT)))"
proof -
  let ?h0 = "exampleHost (Some (js ''key'')) (js ''+new'') (js ''fix: x'')"
  let ?h = "?h0\<lparr>cfgModel := Some []\<rparr>"
  let ?p = "buildPrompt (preprocessDiff (js ''+new'')) (js ''M'' @ 0x09 # js ''f.py'') (js ''main'')"
  have t: "trim (js ''+new'') = js ''+new''"
    by (simp add: trim_def trimStart_def trimEnd_def char_defs)
  have c: "gatherContext ?h (js ''/repo'') = Inr [js ''+new'', js ''M'' @ 0x09 # js ''f.py'', js ''main'']"
    using exampleHost_context [of "Some (js ''key'')" "js ''+new''" _ "js ''/repo''"]
    by (simp only: t model_irrelevant)
  have k: "\<not> falsy (cfgGeminiApiKey ?h0)" "the (cfgGeminiApiKey ?h0) = js ''key''"
    "cfgModel ?h = None \<or> cfgModel ?h = Some []"
    by (simp_all add: falsy_def exampleHost_def js_def)
  have n: "js ''+new'' \<noteq> []"
    by (simp add: js_def)
  have s: "sanitize (trim (js ''fix: x'')) = js ''fix: x''"
    by (simp add: sanitize_defs char_defs)
  have gm: "generateCommitMessage ?h d f b a m = Inr (js ''fix: x'')" for d f b a m
    using s by (simp add: generateCommitMessage_def exampleHost_def)
  have x: "js ''fix: x'' \<noteq> []"
    by (simp add: js_def)
  have "fst (generate ?h (Some EXAMPLE_EXT)) =
      gatherEvents (js ''/repo'') @
        [WithProgress PROGRESS_TITLE,
         GenerateContent (js ''key'') (orElse (Some []) DEFAULT_MODEL) ?p,
         SetInputBox (js ''fix: x''), ShowInformationMessage MESSAGE_READY]"
    using k(1,2) by (simp add: generate_def Let_def c t n x gm EXAMPLE_EXT_def EXAMPLE_REPO_def)
  then have mem: "GenerateContent (js ''key'') (orElse (Some []) DEFAULT_MODEL) ?p
      \<in> set (fst (generate ?h (Some EXAMPLE_EXT)))"
    by simp
  have "orElse (Some []) DEFAULT_MODEL = js ''gemini-2.0-flash''"
    using empty_api_key_is_absent [of ?h "Some EXAMPLE_EXT"] k(3) mem by blast
  with mem have "GenerateContent (js ''key'') (js ''gemini-2.0-flash'') ?p
      \<in> set (fst (generate ?h (Some EXAMPLE_EXT)))"
    by simp
  then show ?thesis
    using empty_api_key_is_absent [of "exampleHost (Some []) (js ''+new'') (js ''fix: x'')" "Some EXAMPLE_EXT"]
      empty_api_key_is_absent [of "exampleHost None (js ''+new'') (js ''fix: x'')" "Some EXAMPLE_EXT"]
    by (simp add: exampleHost_def)
qed

text \<open>A run in which every step succeeds: the fenced answer of the provider is sanitized,
  written to the input box of the first repository, and announced.\<close>

lemma generate_delivers_example:
  \<open>generate (exampleHost (Some (js ''key'')) (js ''+new'') (js ''```\<newline>fix(f): update value\<newline>```''))
      (Some EXAMPLE_EXT) =
     (gatherEvents (js ''/repo'') @
        [WithProgress PROGRESS_TITLE,
         GenerateContent (js ''key'') DEFAULT_MODEL
           (buildPrompt (preprocessDiff (js ''+new'')) (js ''M'' @ 0x09 # js ''f.py'') (js ''main'')),
         SetInputBox (js ''fix(f): update value''),
         ShowInformationMessage MESSAGE_READY],
      Some (EXAMPLE_EXT\<lparr>repositories := Some [EXAMPLE_REPO\<lparr>inputBox := js ''fix(f): update value''\<rparr>]\<rparr>))\<close>
proof -
  let ?h = \<open>exampleHost (Some (js ''key'')) (js ''+new'') (js ''```\<newline>fix(f): update value\<newline>```'')\<close>
  have t: "trim (js ''+new'') = js ''+new''"
    by (simp add: trim_def trimStart_def trimEnd_def char_defs)
  have c: "gatherContext ?h (js ''/repo'') = Inr [js ''+new'', js ''M'' @ 0x09 # js ''f.py'', js ''main'']"
    using exampleHost_context [of "Some (js ''key'')" "js ''+new''" _ "js ''/repo''"]
    by (simp only: t)
  have k: "\<not> falsy (cfgGeminiApiKey ?h)" "the (cfgGeminiApiKey ?h) = js ''key''"
    "orElse (cfgModel ?h) DEFAULT_MODEL = DEFAULT_MODEL"
    by (simp_all add: falsy_def orElse_def exampleHost_def js_def)
  have n: "js ''+new'' \<noteq> []" \<open>js ''fix(f): update value'' \<noteq> []\<close>
    by (simp_all add: js_def)
  have s: \<open>sanitize (trim (js ''```\<newline>fix(f): update value\<newline>```'')) = js ''fix(f): update value''\<close>
    by (simp add: sanitize_defs char_defs)
  have g: "generateCommitMessage ?h d f b a m = Inr (js ''fix(f): update value'')" for d f b a m
    using s by (simp add: generateCommitMessage_def exampleHost_def)
  show ?thesis
    by (simp add: generate_def k c t n g EXAMPLE_EXT_def EXAMPLE_REPO_def)
qed

end
